theory Spec2Isabelle
  imports Complex_Main "HOL-Library.Sublist" "HOL-Library.Log_Nat" "HOL-Library.Word"
begin

section \<open>Python values used by main.py\<close>

text \<open>
  Strings are lists of characters. A \<^typ>\<open>char\<close> stands for one code point below 256
  (Latin-1); paths with other code points are outside the model.
\<close>

subsection \<open>Exceptions\<close>

text \<open>
  Every constructor is a subclass of Python's \<open>Exception\<close>: the built-in errors that the
  arithmetic and conversions of \<open>run\<close> raise, and \<open>LibraryError\<close> for whatever a call into
  cv2, moviepy or os raises. The string is the exception's argument, which \<open>str(e)\<close>
  returns.
\<close>

datatype exn =
    ValueError string
  | ZeroDivisionError string
  | OverflowError string
  | IndexError string
  | LibraryError string

fun str_exn :: "exn \<Rightarrow> string" where
  "str_exn (ValueError m) = m"
| "str_exn (ZeroDivisionError m) = m"
| "str_exn (OverflowError m) = m"
| "str_exn (IndexError m) = m"
| "str_exn (LibraryError m) = m"

subsection \<open>str.lower, str.split, str.endswith\<close>

definition lower_char :: "char \<Rightarrow> char" where
  \<comment> \<open>\<open>A\<close>..\<open>Z\<close> and the Latin-1 capitals U+00C0..U+00DE (but the sign U+00D7) move up by 32\<close>
  "lower_char c =
     (let n = (of_char c :: nat)
      in if (65 \<le> n \<and> n \<le> 90) \<or> (192 \<le> n \<and> n \<le> 222 \<and> n \<noteq> 215)
         then char_of (n + 32) else c)"

definition lower :: "string \<Rightarrow> string" where
  "lower s = map lower_char s"

definition isspace :: "char \<Rightarrow> bool" where
  \<comment> \<open>the code points below 256 on which \<open>str.isspace\<close> is true\<close>
  "isspace c = ((of_char c :: nat) \<in> {9, 10, 11, 12, 13, 28, 29, 30, 31, 32, 133, 160})"

fun split_acc :: "string \<Rightarrow> string \<Rightarrow> string list" where
  "split_acc w [] = (if w = [] then [] else [w])"
| "split_acc w (c # cs) =
     (if isspace c then (if w = [] then split_acc [] cs else w # split_acc [] cs)
      else split_acc (w @ [c]) cs)"

definition py_split :: "string \<Rightarrow> string list" where
  \<comment> \<open>\<open>s.split()\<close>: the maximal runs of non-whitespace\<close>
  "py_split s = split_acc [] s"

definition endswith :: "string \<Rightarrow> string \<Rightarrow> bool" where
  "endswith s ext = (length ext \<le> length s \<and> drop (length s - length ext) s = ext)"

definition first_item :: "'a list \<Rightarrow> exn + 'a" where
  \<comment> \<open>\<open>xs[0]\<close>\<close>
  "first_item xs = (case xs of [] \<Rightarrow> Inl (IndexError ''list index out of range'') | x # _ \<Rightarrow> Inr x)"

subsection \<open>os.path.splitext\<close>

text \<open>
  \<open>os.path.splitext\<close> is \<open>genericpath._splitext(p, sep, altsep, '.')\<close>, with \<open>sep = '/'\<close>
  and no \<open>altsep\<close> in posixpath, and with \<open>sep = '\\'\<close>, \<open>altsep = '/'\<close> in ntpath.
\<close>

datatype platform = Posix | Windows

definition rfind :: "string \<Rightarrow> char \<Rightarrow> int" where
  \<comment> \<open>\<open>p.rfind(c)\<close>: the last index of \<open>c\<close>, or -1\<close>
  "rfind p c =
     (if c \<in> set p then int (length p) - 1 - int (length (takeWhile (\<lambda>x. x \<noteq> c) (rev p)))
      else - 1)"

definition sep_index :: "platform \<Rightarrow> string \<Rightarrow> int" where
  "sep_index pf p =
     (case pf of
        Posix \<Rightarrow> rfind p (CHR ''/'')
      | Windows \<Rightarrow> max (rfind p (CHR 0x5C)) (rfind p (CHR ''/'')))"

definition splitext :: "platform \<Rightarrow> string \<Rightarrow> string \<times> string" where
  \<comment> \<open>the extension starts at the last dot, if that dot comes after the last separator
      and some character between them is not a dot\<close>
  "splitext pf p =
     (let sepIndex = sep_index pf p; dotIndex = rfind p (CHR ''.'')
      in if dotIndex > sepIndex \<and>
            list_ex (\<lambda>c. c \<noteq> CHR ''.'') (take (nat (dotIndex - (sepIndex + 1))) (drop (nat (sepIndex + 1)) p))
         then (take (nat dotIndex) p, drop (nat dotIndex) p)
         else (p, []))"

section \<open>The window: MediaConverterApp\<close>

text \<open>
  Only the fields that the handlers read or that decide what is converted are kept:
  the selected input, whether the START CONVERSION button is enabled, the status line
  under the progress bar, the bar's visibility, and the worker thread that was started
  last (its two constructor arguments). Style sheets and the file name label are
  presentation only.
\<close>

datatype status_label =
    NoStatus
  | ReadyToConvert
  | InvalidFileType  \<comment> \<open>INVALID FILE TYPE - USE .WMV, .ASF, .MP4, .MOV, .AVI OR .MKV\<close>
  | Converting int
  | ConversionSuccessful
  | ConversionFailed string

record app =
  input_file :: string
  convert_btn_enabled :: bool
  progress_label :: status_label
  progress_visible :: bool
  converter_thread :: "(string \<times> string) option"

definition init_app :: app where
  "init_app = \<lparr>input_file = [], convert_btn_enabled = False, progress_label = NoStatus,
               progress_visible = False, converter_thread = None\<rparr>"

definition supported_formats :: "string list" where
  "supported_formats = [''.wmv'', ''.asf'', ''.mp4'', ''.mov'', ''.avi'', ''.mkv'']"

definition drop_accepts :: "string list \<Rightarrow> bool" where
  \<comment> \<open>\<open>files and any(files[0].lower().endswith(ext) for ext in supported_formats)\<close>\<close>
  "drop_accepts files =
     (case files of
        [] \<Rightarrow> False
      | f # _ \<Rightarrow> list_ex (\<lambda>ext. endswith (lower f) ext) supported_formats)"

definition dropEvent :: "app \<Rightarrow> string list \<Rightarrow> app" where
  "dropEvent s files =
     (if drop_accepts files
      then s\<lparr>input_file := hd files, convert_btn_enabled := True, progress_label := ReadyToConvert\<rparr>
      else s\<lparr>progress_label := InvalidFileType\<rparr>)"

definition format_items :: "string list" where
  \<comment> \<open>the entries of \<open>format_combo\<close>\<close>
  "format_items = [''MP4 (Recommended)'', ''MOV'', ''AVI'', ''MKV'']"

definition output_format :: "string \<Rightarrow> exn + string" where
  \<comment> \<open>\<open>currentText().split()[0].lower()\<close>\<close>
  "output_format current_text =
     (case first_item (py_split current_text) of Inl e \<Rightarrow> Inl e | Inr w \<Rightarrow> Inr (lower w))"

definition output_path :: "platform \<Rightarrow> string \<Rightarrow> string \<Rightarrow> string" where
  \<comment> \<open>\<open>os.path.splitext(self.input_file)[0] + '.' + output_format\<close>\<close>
  "output_path pf inp fmt = fst (splitext pf inp) @ ''.'' @ fmt"

datatype start_outcome =
    MessageBoxCritical string   \<comment> \<open>the error dialog; no thread is created\<close>
  | ThreadStarted string string   \<comment> \<open>\<open>ConverterThread(input_file, output_file).start()\<close>\<close>
  | Uncaught exn

definition start_conversion ::
  "platform \<Rightarrow> (string \<Rightarrow> bool) \<Rightarrow> string \<Rightarrow> app \<Rightarrow> app \<times> start_outcome" where
  \<comment> \<open>\<open>path_exists\<close> is \<open>os.path.exists\<close>, \<open>current_text\<close> the combo box's current entry\<close>
  "start_conversion pf path_exists current_text s =
     (if input_file s = [] \<or> \<not> path_exists (input_file s)
      then (s, MessageBoxCritical ''Input file does not exist!'')
      else case output_format current_text of
             Inl e \<Rightarrow> (s, Uncaught e)
           | Inr fmt \<Rightarrow>
               let output_file = output_path pf (input_file s) fmt
               in (s\<lparr>progress_visible := True, progress_label := Converting 0,
                      convert_btn_enabled := False,
                      converter_thread := Some (input_file s, output_file)\<rparr>,
                   ThreadStarted (input_file s) output_file))"

text \<open>
  Ending in an extension without regard to case, stated without \<open>lower\<close>: the last
  characters of the path match the extension one by one up to case.
\<close>

definition same_letter :: "char \<Rightarrow> char \<Rightarrow> bool" where
  "same_letter a b = (lower_char a = lower_char b)"

definition ends_with_ignoring_case :: "string \<Rightarrow> string \<Rightarrow> bool" where
  "ends_with_ignoring_case p ext =
     (length ext \<le> length p \<and> list_all2 same_letter (drop (length p - length ext) p) ext)"

section \<open>Floating point\<close>

text \<open>
  A Python float is an IEEE binary64 value. The finite ones are rationals;
  \<open>round_double\<close> rounds a rational to the nearest binary64 value, ties to even,
  with 53 bits above the subnormal range (spacing \<open>2 ^ (-1074)\<close> there) and without
  a largest exponent: its callers compare with \<open>2 ^ 1024\<close> to detect overflow.
\<close>

datatype pyfloat = Finite rat | PosInf | NegInf | NaN

definition ilog2 :: "rat \<Rightarrow> int" where
  \<comment> \<open>for \<open>0 < x\<close>, the \<open>k\<close> with \<open>2 ^ k \<le> x < 2 ^ (k + 1)\<close>\<close>
  "ilog2 x = (if 1 \<le> x then bitlen \<lfloor>x\<rfloor> - 1 else - bitlen (\<lceil>1 / x\<rceil> - 1))"

definition pow2 :: "int \<Rightarrow> rat" where
  "pow2 e = (if 0 \<le> e then 2 ^ nat e else 1 / 2 ^ nat (- e))"

definition round_half_even :: "rat \<Rightarrow> int" where
  "round_half_even q =
     (let f = \<lfloor>q\<rfloor>; r = q - of_int f
      in if r < 1 / 2 then f else if 1 / 2 < r then f + 1 else if even f then f else f + 1)"

definition round_double :: "rat \<Rightarrow> rat" where
  "round_double x =
     (if x = 0 then 0
      else let e = max (ilog2 \<bar>x\<bar> - 52) (- 1074)
           in sgn x * of_int (round_half_even (\<bar>x\<bar> / pow2 e)) * pow2 e)"

definition dbl_overflow :: rat where
  "dbl_overflow = 2 ^ 1024"

definition int_truediv :: "int \<Rightarrow> int \<Rightarrow> exn + rat" where
  \<comment> \<open>\<open>a / b\<close> on two ints: the correctly rounded quotient\<close>
  "int_truediv a b =
     (if b = 0 then Inl (ZeroDivisionError ''division by zero'')
      else let r = round_double (of_int a / of_int b)
           in if dbl_overflow \<le> \<bar>r\<bar>
              then Inl (OverflowError ''integer division result too large for a float'')
              else Inr r)"

definition float_mul :: "rat \<Rightarrow> rat \<Rightarrow> pyfloat" where
  \<comment> \<open>the product of two finite floats\<close>
  "float_mul a b =
     (let r = round_double (a * b)
      in if dbl_overflow \<le> r then PosInf else if r \<le> - dbl_overflow then NegInf else Finite r)"

definition trunc :: "rat \<Rightarrow> int" where
  "trunc q = (if 0 \<le> q then \<lfloor>q\<rfloor> else \<lceil>q\<rceil>)"

fun py_int :: "pyfloat \<Rightarrow> exn + int" where
  \<comment> \<open>\<open>int(x)\<close> on a float\<close>
  "py_int (Finite q) = Inr (trunc q)"
| "py_int PosInf = Inl (OverflowError ''cannot convert float infinity to integer'')"
| "py_int NegInf = Inl (OverflowError ''cannot convert float infinity to integer'')"
| "py_int NaN = Inl (ValueError ''cannot convert float NaN to integer'')"

definition progress_percent :: "int \<Rightarrow> int \<Rightarrow> exn + int" where
  \<comment> \<open>\<open>int((frame_count / total_frames) * 100)\<close>\<close>
  "progress_percent frame_count total_frames =
     (case int_truediv frame_count total_frames of
        Inl e \<Rightarrow> Inl e
      | Inr q \<Rightarrow> py_int (float_mul q 100))"

section \<open>The worker: ConverterThread\<close>

subsection \<open>What the worker does to the outside\<close>

type_synonym pixel = "8 word \<times> 8 word \<times> 8 word"
type_synonym frame = "pixel list list"

definition cvtColor_BGR2RGB :: "frame \<Rightarrow> frame" where
  \<comment> \<open>\<open>cv2.cvtColor(frame, cv2.COLOR_BGR2RGB)\<close>: the first and third channel change places\<close>
  "cvtColor_BGR2RGB fr = map (map (\<lambda>(c0, c1, c2). (c2, c1, c0))) fr"

datatype event =
    Progress int         \<comment> \<open>\<open>progress_updated.emit\<close>\<close>
  | Finished bool string   \<comment> \<open>\<open>conversion_finished.emit\<close>\<close>

datatype audio_clip = AudioClip string

datatype clip = Clip string "audio_clip option"
  \<comment> \<open>a moviepy video clip: the file it reads and the audio attached to it\<close>

record write_args =
  clip :: clip
  filename :: string
  codec :: string
  audio_codec :: "string option"
  fps :: pyfloat
  threads :: int
  preset :: string
  bitrate :: string

datatype action =
    Emit event
  | VideoCapture string
  | AudioFileClip string
  | VideoWriter string string pyfloat int int
  | WriteFrame frame
  | CapRelease
  | OutRelease
  | VideoFileClip string
  | WriteVideofile write_args
  | VideoClose
  | AudioClose
  | Remove string

text \<open>
  The libraries and the input file, as far as \<open>run\<close> observes them. A call that can
  raise gives \<open>Inl\<close> of the exception. The capture delivers the frames of
  \<open>cap_frames\<close> one per \<open>cap.read()\<close> and then reports \<open>ret = False\<close>; it stays open
  until \<open>run\<close> releases it, so the loop condition \<open>cap.isOpened()\<close> holds on every
  iteration.
\<close>

record env =
  os_platform :: platform
  cap_isOpened :: bool
  cap_fps :: pyfloat
  cap_frame_width :: pyfloat
  cap_frame_height :: pyfloat
  cap_frame_count :: pyfloat
  cap_frames :: "frame list"
  audio_file_clip :: "string \<Rightarrow> exn + audio_clip"
  video_writer :: "string \<Rightarrow> exn + unit"
  frame_write :: "int \<Rightarrow> frame \<Rightarrow> exn + unit"
  video_file_clip :: "string \<Rightarrow> exn + unit"
  write_videofile :: "write_args \<Rightarrow> exn + unit"
  video_close :: "exn + unit"
  audio_close :: "exn + unit"
  os_remove :: "string \<Rightarrow> exn + unit"

subsection \<open>Sequencing calls that may raise\<close>

text \<open>
  A computation yields the calls it made, in order, and either the exception that
  ended it or its value.
\<close>

type_synonym 'a m = "action list \<times> (exn + 'a)"

definition ret :: "'a \<Rightarrow> 'a m" where
  "ret x = ([], Inr x)"

definition raise :: "exn \<Rightarrow> 'a m" where
  "raise e = ([], Inl e)"

definition act :: "action \<Rightarrow> unit m" where
  "act a = ([a], Inr ())"

definition lift :: "exn + 'a \<Rightarrow> 'a m" where
  "lift r = ([], r)"

definition and_then :: "'a m \<Rightarrow> ('a \<Rightarrow> 'b m) \<Rightarrow> 'b m" where
  "and_then c f =
     (case c of
        (tr, Inl e) \<Rightarrow> (tr, Inl e)
      | (tr, Inr x) \<Rightarrow> (case f x of (tr', r) \<Rightarrow> (tr @ tr', r)))"

subsection \<open>ConverterThread.run\<close>

definition open_audio :: "env \<Rightarrow> string \<Rightarrow> (audio_clip option) m" where
  \<comment> \<open>the inner \<open>try\<close>: any exception leaves \<open>audio_clip = None\<close>\<close>
  "open_audio env infile =
     and_then (act (AudioFileClip infile)) (\<lambda>_.
       case audio_file_clip env infile of
         Inl e \<Rightarrow> ret None
       | Inr a \<Rightarrow> ret (Some a))"

definition frame_step :: "env \<Rightarrow> int \<Rightarrow> int \<Rightarrow> frame \<Rightarrow> int m" where
  \<comment> \<open>the loop body after a successful \<open>cap.read()\<close>; yields the new \<open>frame_count\<close>\<close>
  "frame_step env total_frames frame_count frame0 =
     (let frame = cvtColor_BGR2RGB frame0
      in and_then (act (WriteFrame frame)) (\<lambda>_.
         and_then (lift (frame_write env frame_count frame)) (\<lambda>_.
         and_then (lift (progress_percent (frame_count + 1) total_frames)) (\<lambda>progress.
         and_then (act (Emit (Progress (min progress 95)))) (\<lambda>_.
         ret (frame_count + 1))))))"

fun frame_loop :: "env \<Rightarrow> int \<Rightarrow> int \<Rightarrow> frame list \<Rightarrow> unit m" where
  "frame_loop env total_frames frame_count [] = ret ()"
| "frame_loop env total_frames frame_count (frame0 # rest) =
     (case frame_step env total_frames frame_count frame0 of
        (tr, Inl e) \<Rightarrow> (tr, Inl e)
      | (tr, Inr frame_count') \<Rightarrow>
          (case frame_loop env total_frames frame_count' rest of (tr', r) \<Rightarrow> (tr @ tr', r)))"

definition temp_path :: "platform \<Rightarrow> string \<Rightarrow> string" where
  \<comment> \<open>\<open>os.path.splitext(self.output_file)[0] + "_temp.mp4"\<close>\<close>
  "temp_path pf outfile = fst (splitext pf outfile) @ ''_temp.mp4''"

definition final_args :: "string \<Rightarrow> string \<Rightarrow> audio_clip option \<Rightarrow> pyfloat \<Rightarrow> write_args" where
  \<comment> \<open>\<open>final_clip\<close> and the arguments of \<open>write_videofile\<close>\<close>
  "final_args temp_output outfile audio fps0 =
     \<lparr>clip = (case audio of Some a \<Rightarrow> Clip temp_output (Some a) | None \<Rightarrow> Clip temp_output None),
      filename = outfile,
      codec = ''libx264'',
      audio_codec = (case audio of Some a \<Rightarrow> Some ''aac'' | None \<Rightarrow> None),
      fps = fps0,
      threads = 4,
      preset = ''slow'',
      bitrate = ''5000k''\<rparr>"

definition mux :: "env \<Rightarrow> string \<Rightarrow> string \<Rightarrow> audio_clip option \<Rightarrow> pyfloat \<Rightarrow> unit m" where
  \<comment> \<open>step 4, the cleanup and the two final signals\<close>
  "mux env temp_output outfile audio fps0 =
     and_then (act (VideoFileClip temp_output)) (\<lambda>_.
     and_then (lift (video_file_clip env temp_output)) (\<lambda>_.
     and_then (act (WriteVideofile (final_args temp_output outfile audio fps0))) (\<lambda>_.
     and_then (lift (write_videofile env (final_args temp_output outfile audio fps0))) (\<lambda>_.
     and_then (act VideoClose) (\<lambda>_.
     and_then (lift (video_close env)) (\<lambda>_.
     and_then (case audio of
                 Some a \<Rightarrow> and_then (act AudioClose) (\<lambda>_. lift (audio_close env))
               | None \<Rightarrow> ret ()) (\<lambda>_.
     and_then (act (Remove temp_output)) (\<lambda>_.
     and_then (lift (os_remove env temp_output)) (\<lambda>_.
     and_then (act (Emit (Progress 100))) (\<lambda>_.
     act (Emit (Finished True outfile))))))))))))"

definition encode :: "env \<Rightarrow> string \<Rightarrow> int \<Rightarrow> int \<Rightarrow> int \<Rightarrow> unit m" where
  \<comment> \<open>step 3: the writer, the frame loop and the two releases\<close>
  "encode env temp_output width height total_frames =
     and_then (act (VideoWriter temp_output ''mp4v'' (cap_fps env) width height)) (\<lambda>_.
     and_then (lift (video_writer env temp_output)) (\<lambda>_.
     and_then (frame_loop env total_frames 0 (cap_frames env)) (\<lambda>_.
     and_then (act CapRelease) (\<lambda>_.
     act OutRelease))))"

definition run_body :: "env \<Rightarrow> string \<Rightarrow> string \<Rightarrow> unit m" where
  \<comment> \<open>the body of the outer \<open>try\<close>\<close>
  "run_body env infile outfile =
     and_then (act (VideoCapture infile)) (\<lambda>_.
     if \<not> cap_isOpened env
     then raise (ValueError ''Could not open video file. Make sure Windows Media Player codecs are installed.'')
     else
       and_then (lift (py_int (cap_frame_width env))) (\<lambda>width.
       and_then (lift (py_int (cap_frame_height env))) (\<lambda>height.
       and_then (lift (py_int (cap_frame_count env))) (\<lambda>total_frames.
       and_then (open_audio env infile) (\<lambda>audio.
       and_then (encode env (temp_path (os_platform env) outfile) width height total_frames) (\<lambda>_.
       mux env (temp_path (os_platform env) outfile) outfile audio (cap_fps env)))))))"

definition run :: "env \<Rightarrow> string \<Rightarrow> string \<Rightarrow> action list" where
  \<comment> \<open>\<open>except Exception as e: self.conversion_finished.emit(False, str(e))\<close>\<close>
  "run env infile outfile =
     (case run_body env infile outfile of
        (tr, Inl e) \<Rightarrow> tr @ [Emit (Finished False (str_exn e))]
      | (tr, Inr _) \<Rightarrow> tr)"

subsection \<open>Reading a run\<close>

fun emitted :: "action list \<Rightarrow> event list" where
  "emitted [] = []"
| "emitted (Emit ev # tr) = ev # emitted tr"
| "emitted (a # tr) = emitted tr"

fun percents :: "event list \<Rightarrow> int list" where
  "percents [] = []"
| "percents (Progress p # evs) = p # percents evs"
| "percents (Finished ok m # evs) = percents evs"

fun is_finished :: "event \<Rightarrow> bool" where
  "is_finished (Finished ok m) = True"
| "is_finished (Progress p) = False"

fun frames_written :: "action list \<Rightarrow> frame list" where
  "frames_written [] = []"
| "frames_written (WriteFrame fr # tr) = fr # frames_written tr"
| "frames_written (a # tr) = frames_written tr"

fun muxed :: "action list \<Rightarrow> write_args list" where
  "muxed [] = []"
| "muxed (WriteVideofile args # tr) = args # muxed tr"
| "muxed (a # tr) = muxed tr"

fun removed :: "action list \<Rightarrow> string list" where
  "removed [] = []"
| "removed (Remove p # tr) = p # removed tr"
| "removed (a # tr) = removed tr"

fun is_success :: "event \<Rightarrow> bool" where
  "is_success (Finished ok m) = ok"
| "is_success (Progress p) = False"

definition succeeded :: "action list \<Rightarrow> bool" where
  "succeeded tr = list_ex is_success (emitted tr)"

fun writer_paths :: "action list \<Rightarrow> string list" where
  "writer_paths [] = []"
| "writer_paths (VideoWriter p c f w h # tr) = p # writer_paths tr"
| "writer_paths (a # tr) = writer_paths tr"

definition audio_of :: "env \<Rightarrow> string \<Rightarrow> audio_clip option" where
  \<comment> \<open>the value of \<open>audio_clip\<close> after the inner \<open>try\<close>\<close>
  "audio_of env infile = (case audio_file_clip env infile of Inl e \<Rightarrow> None | Inr a \<Rightarrow> Some a)"

section \<open>Sample inputs\<close>

text \<open>
  A two-pixel frame, and a file for which every library call succeeds: four frames,
  a frame count of 4, an audio track. The other samples change one field of it.
\<close>

definition sample_frame :: frame where
  "sample_frame = [[(255, 0, 0), (10, 20, 30)]]"

definition good_env :: env where
  "good_env =
     \<lparr>os_platform = Posix, cap_isOpened = True, cap_fps = Finite 25,
      cap_frame_width = Finite 2, cap_frame_height = Finite 1, cap_frame_count = Finite 4,
      cap_frames = [sample_frame, sample_frame, sample_frame, sample_frame],
      audio_file_clip = (\<lambda>p. Inr (AudioClip p)), video_writer = (\<lambda>p. Inr ()),
      frame_write = (\<lambda>n f. Inr ()), video_file_clip = (\<lambda>p. Inr ()),
      write_videofile = (\<lambda>a. Inr ()), video_close = Inr (), audio_close = Inr (),
      os_remove = (\<lambda>p. Inr ())\<rparr>"

definition audio_unreadable :: "string \<Rightarrow> exn + audio_clip" where
  "audio_unreadable p = Inl (LibraryError ''no audio stream'')"

definition disk_full :: "write_args \<Rightarrow> exn + unit" where
  "disk_full a = Inl (LibraryError ''No space left on device'')"

definition every_path_exists :: "string \<Rightarrow> bool" where
  "every_path_exists p = True"

section \<open>Facts about the float model\<close>

text \<open>
  Rounding to binary64 is monotone and leaves integers below \<open>2 ^ 53\<close> unchanged.
\<close>

lemma pow2_powi: "pow2 e = 2 powi e"
  by (simp add: pow2_def power_int_def inverse_eq_divide power_one_over)

lemma pow2_pos: "0 < pow2 e"
  by (simp add: pow2_powi zero_less_power_int)

lemma pow2_add: "pow2 (a + b) = pow2 a * pow2 b"
  by (simp add: pow2_powi power_int_add)

lemma pow2_mono: "a \<le> b \<Longrightarrow> pow2 a \<le> pow2 b"
  by (simp add: pow2_powi power_int_increasing)

lemma pow2_nat: "0 \<le> e \<Longrightarrow> pow2 e = of_int (2 ^ nat e)"
  by (simp add: pow2_def)

lemma ilog2_bounds:
  assumes "0 < x"
  shows "pow2 (ilog2 x) \<le> x \<and> x < pow2 (ilog2 x + 1)"
proof (cases "1 \<le> x")
  case True
  define n where "n = \<lfloor>x\<rfloor>"
  have n1: "1 \<le> n" using True by (simp add: n_def le_floor_iff)
  then have b: "2 ^ nat (bitlen n - 1) \<le> n \<and> n < 2 ^ nat (bitlen n)"
    using bitlen_bounds [of n] by simp
  have bl: "1 \<le> bitlen n" using n1 bitlen_nonneg [of n] bitlen_eq_zero_iff [of n] by linarith
  have lo: "rat_of_int (2 ^ nat (bitlen n - 1)) \<le> x"
  proof -
    have "rat_of_int (2 ^ nat (bitlen n - 1)) \<le> of_int n" using b by (simp only: of_int_le_iff)
    also have "\<dots> \<le> x" by (simp add: n_def)
    finally show ?thesis .
  qed
  have hi: "x < rat_of_int (2 ^ nat (bitlen n))"
  proof -
    have "n + 1 \<le> 2 ^ nat (bitlen n)" using b by simp
    then have "rat_of_int (n + 1) \<le> of_int (2 ^ nat (bitlen n))" by (simp only: of_int_le_iff)
    moreover have "x < of_int (n + 1)" unfolding n_def using floor_correct [of x] by blast
    ultimately show ?thesis by linarith
  qed
  have "ilog2 x = bitlen n - 1" using True by (simp add: ilog2_def n_def)
  then show ?thesis using lo hi bl by (simp add: pow2_nat)
next
  case False
  define y where "y = 1 / x"
  define n where "n = \<lceil>y\<rceil>"
  have y1: "1 < y" using False assms by (simp add: y_def)
  have n2: "2 \<le> n" using y1 by (simp add: n_def le_ceiling_iff)
  define k where "k = bitlen (n - 1)"
  have b: "2 ^ nat (k - 1) \<le> n - 1 \<and> n - 1 < 2 ^ nat k"
    using bitlen_bounds [of "n - 1"] n2 by (simp add: k_def)
  have k1: "1 \<le> k" using n2 bitlen_nonneg [of "n - 1"] bitlen_eq_zero_iff [of "n - 1"] unfolding k_def by linarith
  have hi: "y \<le> rat_of_int (2 ^ nat k)"
  proof -
    have "n \<le> 2 ^ nat k" using b by simp
    then have "rat_of_int n \<le> of_int (2 ^ nat k)" by (simp only: of_int_le_iff)
    moreover have "y \<le> of_int n" by (simp add: n_def)
    ultimately show ?thesis by linarith
  qed
  have lo: "rat_of_int (2 ^ nat (k - 1)) < y"
  proof -
    have "rat_of_int (2 ^ nat (k - 1)) \<le> of_int (n - 1)" using b by (simp only: of_int_le_iff)
    moreover have "rat_of_int (n - 1) < y" unfolding n_def using ceiling_correct [of y] by simp
    ultimately show ?thesis by linarith
  qed
  have il: "ilog2 x = - k" using False by (simp add: ilog2_def k_def n_def y_def)
  have xy: "x = 1 / y" using assms by (simp add: y_def)
  have p1: "pow2 (- k) = 1 / of_int (2 ^ nat k)" using k1 by (simp add: pow2_def)
  have p2: "pow2 (- k + 1) = 1 / of_int (2 ^ nat (k - 1))"
  proof (cases "k = 1")
    case True then show ?thesis by (simp add: pow2_def)
  next
    case False
    then have "- k + 1 < 0" using k1 by simp
    moreover have "nat (- (- k + 1)) = nat (k - 1)" by simp
    ultimately show ?thesis by (simp add: pow2_def)
  qed
  have ypos: "0 < y" using y1 by simp
  have a: "1 / rat_of_int (2 ^ nat k) \<le> x"
    unfolding xy using hi ypos by (simp add: frac_le)
  have c: "x < 1 / rat_of_int (2 ^ nat (k - 1))"
    unfolding xy using lo ypos by (simp add: frac_less2)
  show ?thesis using a c by (simp only: il p1 p2)
qed

lemma ilog2_mono:
  assumes "0 < x" "x \<le> y"
  shows "ilog2 x \<le> ilog2 y"
proof (rule ccontr)
  assume "\<not> ilog2 x \<le> ilog2 y"
  then have "ilog2 y + 1 \<le> ilog2 x" by simp
  then have "pow2 (ilog2 y + 1) \<le> pow2 (ilog2 x)" by (rule pow2_mono)
  also have "\<dots> \<le> x" using ilog2_bounds [OF assms(1)] by simp
  also have "\<dots> \<le> y" by fact
  finally show False using ilog2_bounds [of y] assms by simp
qed

lemma round_half_even_of_int: "round_half_even (of_int j) = j"
  by (simp add: round_half_even_def)

lemma round_half_even_bounds: "\<lfloor>q\<rfloor> \<le> round_half_even q \<and> round_half_even q \<le> \<lfloor>q\<rfloor> + 1"
  by (simp add: round_half_even_def Let_def)

lemma round_half_even_mono:
  assumes "x \<le> y"
  shows "round_half_even x \<le> round_half_even y"
proof (cases "\<lfloor>x\<rfloor> = \<lfloor>y\<rfloor>")
  case True
  then show ?thesis using assms by (auto simp add: round_half_even_def Let_def)
next
  case False
  then have "\<lfloor>x\<rfloor> + 1 \<le> \<lfloor>y\<rfloor>" using floor_mono [OF assms] by linarith
  then show ?thesis using round_half_even_bounds [of x] round_half_even_bounds [of y] by linarith
qed


lemma round_double_pos:
  "0 < x \<Longrightarrow> round_double x =
     of_int (round_half_even (x / pow2 (max (ilog2 x - 52) (- 1074)))) * pow2 (max (ilog2 x - 52) (- 1074))"
  by (simp add: round_double_def Let_def)

lemma scaled_round_mono:
  assumes "x \<le> y"
  shows "of_int (round_half_even (x / pow2 e)) * pow2 e \<le> of_int (round_half_even (y / pow2 e)) * pow2 e"
proof -
  have "x / pow2 e \<le> y / pow2 e" using assms pow2_pos [of e] by (simp add: divide_right_mono)
  then have "round_half_even (x / pow2 e) \<le> round_half_even (y / pow2 e)" by (rule round_half_even_mono)
  then have "rat_of_int (round_half_even (x / pow2 e)) \<le> of_int (round_half_even (y / pow2 e))"
    by (simp only: of_int_le_iff)
  then show ?thesis using pow2_pos [of e] by (simp add: mult_right_mono)
qed

lemma scaled_round_exact:
  assumes "e \<le> k"
  shows "of_int (round_half_even (pow2 k / pow2 e)) * pow2 e = pow2 k"
proof -
  have "pow2 k = pow2 (k - e) * pow2 e" using pow2_add [of "k - e" e] by simp
  then have "pow2 k / pow2 e = pow2 (k - e)" using pow2_pos [of e] by simp
  also have "\<dots> = of_int (2 ^ nat (k - e))" using assms by (simp add: pow2_nat)
  finally have "round_half_even (pow2 k / pow2 e) = 2 ^ nat (k - e)"
    by (simp only: round_half_even_of_int)
  then have "of_int (round_half_even (pow2 k / pow2 e)) * pow2 e = pow2 (k - e) * pow2 e"
    using assms by (simp add: pow2_nat)
  then show ?thesis using pow2_add [of "k - e" e] by simp
qed

lemma round_double_mono_pos:
  assumes "0 < x" "x \<le> y"
  shows "round_double x \<le> round_double y"
proof -
  define ex where "ex = max (ilog2 x - 52) (- 1074)"
  define ey where "ey = max (ilog2 y - 52) (- 1074)"
  have ypos: "0 < y" using assms by simp
  have rx: "round_double x = of_int (round_half_even (x / pow2 ex)) * pow2 ex"
    using round_double_pos [OF assms(1)] by (simp add: ex_def)
  have ry: "round_double y = of_int (round_half_even (y / pow2 ey)) * pow2 ey"
    using round_double_pos [OF ypos] by (simp add: ey_def)
  have le: "ex \<le> ey" using ilog2_mono [OF assms] by (simp add: ex_def ey_def)
  show ?thesis
  proof (cases "ex = ey")
    case True
    then show ?thesis using scaled_round_mono [OF assms(2), of ey] by (simp add: rx ry)
  next
    case False
    then have lt: "ex < ey" using le by simp
    then have ey: "ey = ilog2 y - 52" unfolding ex_def ey_def by linarith
    have "ilog2 x - 52 \<le> ex" by (simp add: ex_def)
    then have k: "ilog2 x + 1 \<le> ilog2 y" using lt ey by simp
    define b where "b = pow2 (ilog2 y)"
    have xb: "x \<le> b"
    proof -
      have "x < pow2 (ilog2 x + 1)" using ilog2_bounds [OF assms(1)] by simp
      also have "\<dots> \<le> b" unfolding b_def using k by (rule pow2_mono)
      finally show ?thesis by simp
    qed
    have "b \<le> y" using ilog2_bounds [OF ypos] by (simp add: b_def)
    have "round_double x \<le> of_int (round_half_even (b / pow2 ex)) * pow2 ex"
      unfolding rx using xb by (rule scaled_round_mono)
    also have "\<dots> = b" unfolding b_def using lt ey by (intro scaled_round_exact) simp
    also have "\<dots> = of_int (round_half_even (b / pow2 ey)) * pow2 ey"
      unfolding b_def using ey by (intro scaled_round_exact [symmetric]) simp
    also have "\<dots> \<le> round_double y"
      unfolding ry using \<open>b \<le> y\<close> by (rule scaled_round_mono)
    finally show ?thesis .
  qed
qed

lemma round_double_nonneg: "0 \<le> x \<Longrightarrow> 0 \<le> round_double x"
proof -
  assume "0 \<le> x"
  have "0 \<le> round_half_even (\<bar>x\<bar> / pow2 e)" for e
  proof -
    have "0 \<le> \<bar>x\<bar> / pow2 e" using pow2_pos [of e] by simp
    then have "0 \<le> \<lfloor>\<bar>x\<bar> / pow2 e\<rfloor>" by simp
    then show ?thesis using round_half_even_bounds [of "\<bar>x\<bar> / pow2 e"] by linarith
  qed
  then show ?thesis using \<open>0 \<le> x\<close> pow2_pos
    by (simp add: round_double_def Let_def less_imp_le)
qed

lemma round_double_minus: "round_double (- x) = - round_double x"
  by (simp add: round_double_def Let_def)

lemma round_double_mono:
  assumes "x \<le> y"
  shows "round_double x \<le> round_double y"
proof -
  consider "0 < x" | "x \<le> 0" "0 \<le> y" | "y < 0" by linarith
  then show ?thesis
  proof cases
    case 1
    then show ?thesis using assms by (rule round_double_mono_pos)
  next
    case 2
    have "0 \<le> round_double (- x)" using 2 by (intro round_double_nonneg) simp
    then have "round_double x \<le> 0" by (simp add: round_double_minus)
    also have "0 \<le> round_double y" using 2 by (intro round_double_nonneg)
    finally show ?thesis .
  next
    case 3
    have "round_double (- y) \<le> round_double (- x)"
      using 3 assms by (intro round_double_mono_pos) simp_all
    then show ?thesis by (simp add: round_double_minus)
  qed
qed

lemma round_double_of_int:
  assumes "\<bar>n\<bar> < 2 ^ 53"
  shows "round_double (of_int n) = of_int n"
proof (cases "n = 0")
  case True
  then show ?thesis by (simp add: round_double_def)
next
  case False
  define a where "a = \<bar>n\<bar>"
  have a1: "1 \<le> a" using False by (simp add: a_def)
  have fl: "\<lfloor>\<bar>rat_of_int n\<bar>\<rfloor> = a" unfolding a_def by (metis floor_of_int of_int_abs)
  have "1 \<le> \<bar>rat_of_int n\<bar>" using a1 unfolding a_def by (metis of_int_1_le_iff of_int_abs)
  then have il: "ilog2 \<bar>rat_of_int n\<bar> = bitlen a - 1" by (simp add: ilog2_def fl)
  have "bitlen a \<le> 53" using assms by (simp add: bitlen_le_iff_power a_def)
  moreover have "1 \<le> bitlen a" using a1 bitlen_nonneg [of a] bitlen_eq_zero_iff [of a] by linarith
  ultimately have e: "max (ilog2 \<bar>rat_of_int n\<bar> - 52) (- 1074) = bitlen a - 53" and neg: "bitlen a - 53 \<le> 0"
    by (simp_all add: il)
  define k where "k = nat (53 - bitlen a)"
  have p: "pow2 (bitlen a - 53) = 1 / of_int (2 ^ k)"
  proof (cases "bitlen a = 53")
    case True then show ?thesis by (simp add: pow2_def k_def)
  next
    case False
    then have "bitlen a - 53 < 0" using neg by simp
    moreover have "nat (- (bitlen a - 53)) = k" by (simp add: k_def)
    ultimately show ?thesis by (simp add: pow2_def)
  qed
  have "\<bar>rat_of_int n\<bar> / pow2 (bitlen a - 53) = of_int (a * 2 ^ k)"
    unfolding p by (simp add: a_def)
  then have r: "round_half_even (\<bar>rat_of_int n\<bar> / pow2 (bitlen a - 53)) = a * 2 ^ k"
    by (simp only: round_half_even_of_int)
  have "round_double (of_int n) =
      sgn (rat_of_int n) * of_int (round_half_even (\<bar>rat_of_int n\<bar> / pow2 (bitlen a - 53))) * pow2 (bitlen a - 53)"
    using False by (simp add: round_double_def Let_def e)
  also have "\<dots> = sgn (rat_of_int n) * of_int (a * 2 ^ k) * (1 / of_int (2 ^ k))"
    by (subst r) (simp only: p)
  also have "\<dots> = sgn (rat_of_int n) * of_int a" by simp
  also have "\<dots> = of_int n" unfolding a_def by (metis of_int_abs sgn_mult_abs)
  finally show ?thesis .
qed

subsection \<open>The percentage\<close>

lemma trunc_mono: "x \<le> y \<Longrightarrow> trunc x \<le> trunc y"
proof -
  assume a: "x \<le> y"
  consider "0 \<le> x" | "x < 0" "0 \<le> y" | "y < 0" by linarith
  then show ?thesis
  proof cases
    case 1 then show ?thesis using a by (simp add: trunc_def floor_mono)
  next
    case 2
    have "\<lceil>x\<rceil> \<le> 0" using 2 by (simp add: ceiling_le_iff)
    moreover have "0 \<le> \<lfloor>y\<rfloor>" using 2 by simp
    ultimately have "\<lceil>x\<rceil> \<le> \<lfloor>y\<rfloor>" by linarith
    then show ?thesis using 2 by (simp add: trunc_def)
  next
    case 3 then show ?thesis using a by (simp add: trunc_def ceiling_mono)
  qed
qed

lemma trunc_of_int: "trunc (of_int j) = j"
  by (simp add: trunc_def)

lemma progress_percent_mono:
  assumes "0 < tf" "a \<le> b" "progress_percent a tf = Inr p" "progress_percent b tf = Inr q"
  shows "p \<le> q"
proof -
  define qa where "qa = round_double (of_int a / of_int tf)"
  define qb where "qb = round_double (of_int b / of_int tf)"
  have "rat_of_int a / of_int tf \<le> of_int b / of_int tf"
    using assms(1,2) by (simp add: divide_right_mono)
  then have "qa \<le> qb" unfolding qa_def qb_def by (rule round_double_mono)
  then have "qa * 100 \<le> qb * 100" by simp
  then have r: "round_double (qa * 100) \<le> round_double (qb * 100)" by (rule round_double_mono)
  have p: "p = trunc (round_double (qa * 100))"
    using assms(1,3)
    by (auto simp add: progress_percent_def int_truediv_def float_mul_def Let_def qa_def
        split: if_splits)
  have q: "q = trunc (round_double (qb * 100))"
    using assms(1,4)
    by (auto simp add: progress_percent_def int_truediv_def float_mul_def Let_def qb_def
        split: if_splits)
  show ?thesis unfolding p q using r by (rule trunc_mono)
qed

lemma progress_percent_exact:
  assumes "tf \<noteq> 0" "\<bar>k\<bar> * 100 < 2 ^ 53"
  shows "progress_percent (k * tf) tf = Inr (100 * k)"
proof -
  have k: "\<bar>k\<bar> < 2 ^ 53" using assms(2) by linarith
  have k100: "\<bar>k * 100\<bar> < 2 ^ 53" using assms(2) by (simp add: abs_mult)
  have d: "rat_of_int (k * tf) / of_int tf = of_int k" using assms(1) by simp
  have r1: "round_double (rat_of_int (k * tf) / of_int tf) = of_int k"
    unfolding d using k by (rule round_double_of_int)
  have "rat_of_int \<bar>k\<bar> < of_int (2 ^ 53)" using k by (simp only: of_int_less_iff)
  then have s1: "\<bar>rat_of_int k\<bar> < dbl_overflow" by (simp add: dbl_overflow_def)
  have r2: "round_double (rat_of_int k * 100) = of_int (k * 100)"
    using round_double_of_int [OF k100] by simp
  have "rat_of_int \<bar>k * 100\<bar> < of_int (2 ^ 53)" using k100 by (simp only: of_int_less_iff)
  then have s2: "\<bar>rat_of_int (k * 100)\<bar> < dbl_overflow" by (simp add: dbl_overflow_def)
  have t: "int_truediv (k * tf) tf = Inr (of_int k)"
    using assms(1) s1 by (simp add: int_truediv_def Let_def r1 del: of_int_mult)
  have f: "float_mul (of_int k) 100 = Finite (of_int (k * 100))"
    using s2 unfolding float_mul_def Let_def r2 by (auto simp add: abs_if split: if_splits)
  show ?thesis by (simp add: progress_percent_def t f trunc_of_int del: of_int_mult)
qed

lemma progress_percent_zero_total: "progress_percent n 0 = Inl (ZeroDivisionError ''division by zero'')"
  by (simp add: progress_percent_def int_truediv_def)

section \<open>Facts about the worker\<close>

subsection \<open>Traces\<close>

lemma emitted_append [simp]: "emitted (a @ b) = emitted a @ emitted b"
  by (induction a rule: emitted.induct) simp_all

lemma percents_append [simp]: "percents (a @ b) = percents a @ percents b"
  by (induction a rule: percents.induct) simp_all

lemma frames_written_append [simp]: "frames_written (a @ b) = frames_written a @ frames_written b"
  by (induction a rule: frames_written.induct) simp_all

lemma muxed_append [simp]: "muxed (a @ b) = muxed a @ muxed b"
  by (induction a rule: muxed.induct) simp_all

lemma removed_append [simp]: "removed (a @ b) = removed a @ removed b"
  by (induction a rule: removed.induct) simp_all

lemma writer_paths_append [simp]: "writer_paths (a @ b) = writer_paths a @ writer_paths b"
  by (induction a rule: writer_paths.induct) simp_all

lemma percents_map_Progress [simp]: "percents (map Progress ps) = ps"
  by (induction ps) simp_all

lemma fst_and_then:
  "fst (and_then c f) = (case snd c of Inl e \<Rightarrow> fst c | Inr x \<Rightarrow> fst c @ fst (f x))"
  by (cases c) (simp add: and_then_def split: sum.splits prod.splits)

lemma snd_and_then:
  "snd (and_then c f) = (case snd c of Inl e \<Rightarrow> Inl e | Inr x \<Rightarrow> snd (f x))"
  by (cases c) (simp add: and_then_def split: sum.splits prod.splits)

lemma frame_step_cases:
  "frame_step env tf fc fr =
     (case frame_write env fc (cvtColor_BGR2RGB fr) of
        Inl e \<Rightarrow> ([WriteFrame (cvtColor_BGR2RGB fr)], Inl e)
      | Inr u \<Rightarrow>
          (case progress_percent (fc + 1) tf of
             Inl e \<Rightarrow> ([WriteFrame (cvtColor_BGR2RGB fr)], Inl e)
           | Inr p \<Rightarrow> ([WriteFrame (cvtColor_BGR2RGB fr), Emit (Progress (min p 95))], Inr (fc + 1))))"
  by (simp add: frame_step_def and_then_def act_def lift_def ret_def Let_def split: sum.splits)

lemma frame_loop_Cons:
  "frame_loop env tf fc (fr # rest) =
     (case frame_write env fc (cvtColor_BGR2RGB fr) of
        Inl e \<Rightarrow> ([WriteFrame (cvtColor_BGR2RGB fr)], Inl e)
      | Inr u \<Rightarrow>
          (case progress_percent (fc + 1) tf of
             Inl e \<Rightarrow> ([WriteFrame (cvtColor_BGR2RGB fr)], Inl e)
           | Inr p \<Rightarrow>
               (WriteFrame (cvtColor_BGR2RGB fr) # Emit (Progress (min p 95)) #
                  fst (frame_loop env tf (fc + 1) rest),
                snd (frame_loop env tf (fc + 1) rest))))"
  by (simp add: frame_step_cases split: sum.splits prod.splits)

declare frame_loop.simps(2) [simp del]

lemma frame_loop_written:
  "prefix (frames_written (fst (frame_loop env tf fc frs))) (map cvtColor_BGR2RGB frs) \<and>
   (snd (frame_loop env tf fc frs) = Inr () \<longrightarrow>
      frames_written (fst (frame_loop env tf fc frs)) = map cvtColor_BGR2RGB frs)"
proof (induction frs arbitrary: fc)
  case Nil
  show ?case by (simp add: ret_def)
next
  case (Cons fr rest)
  show ?case using Cons [of "fc + 1"]
    by (simp add: frame_loop_Cons split: sum.splits)
qed

lemma frame_loop_events:
  "emitted (fst (frame_loop env tf fc frs)) = map Progress (percents (emitted (fst (frame_loop env tf fc frs))))
   \<and> list_all (\<lambda>p. p \<le> 95) (percents (emitted (fst (frame_loop env tf fc frs))))
   \<and> muxed (fst (frame_loop env tf fc frs)) = []
   \<and> removed (fst (frame_loop env tf fc frs)) = []
   \<and> writer_paths (fst (frame_loop env tf fc frs)) = []"
proof (induction frs arbitrary: fc)
  case Nil
  show ?case by (simp add: ret_def)
next
  case (Cons fr rest)
  show ?case using Cons [of "fc + 1"]
    by (simp add: frame_loop_Cons split: sum.splits)
qed

lemma frame_loop_sorted:
  assumes "0 < tf"
  shows "sorted (percents (emitted (fst (frame_loop env tf fc frs)))) \<and>
     (\<forall>p \<in> set (percents (emitted (fst (frame_loop env tf fc frs)))).
        \<forall>j v. j \<le> fc + 1 \<longrightarrow> progress_percent j tf = Inr v \<longrightarrow> min v 95 \<le> p)"
proof (induction frs arbitrary: fc)
  case Nil
  show ?case by (simp add: ret_def)
next
  case (Cons fr rest)
  show ?case
  proof (cases "frame_write env fc (cvtColor_BGR2RGB fr)")
    case (Inl e)
    then show ?thesis by (simp add: frame_loop_Cons)
  next
    case w: (Inr u)
    show ?thesis
    proof (cases "progress_percent (fc + 1) tf")
      case (Inl e)
      then show ?thesis using w by (simp add: frame_loop_Cons)
    next
      case (Inr p)
      let ?rest = "percents (emitted (fst (frame_loop env tf (fc + 1) rest)))"
      have ev: "percents (emitted (fst (frame_loop env tf fc (fr # rest)))) = min p 95 # ?rest"
        using w Inr by (simp add: frame_loop_Cons)
      have ih: "sorted ?rest"
        and lb: "\<And>q j v. q \<in> set ?rest \<Longrightarrow> j \<le> fc + 1 + 1 \<Longrightarrow> progress_percent j tf = Inr v \<Longrightarrow> min v 95 \<le> q"
        using Cons [of "fc + 1"] by blast+
      have head: "min v 95 \<le> min p 95" if "j \<le> fc + 1" "progress_percent j tf = Inr v" for j v
        using progress_percent_mono [OF assms that(1) that(2) Inr] by simp
      have "\<forall>q \<in> set ?rest. min p 95 \<le> q" using lb [OF _ _ Inr] by simp
      then have "sorted (min p 95 # ?rest)" using ih by simp
      moreover have "min v 95 \<le> q"
        if "q \<in> set (min p 95 # ?rest)" "j \<le> fc + 1" "progress_percent j tf = Inr v" for q j v
      proof (cases "q = min p 95")
        case True
        then show ?thesis using head [OF that(2,3)] by simp
      next
        case False
        then have "q \<in> set ?rest" using that(1) by simp
        moreover have "j \<le> fc + 1 + 1" using that(2) by simp
        ultimately show ?thesis using that(3) by (rule lb)
      qed
      ultimately show ?thesis unfolding ev by blast
    qed
  qed
qed

subsection \<open>The phases of a run, case by case\<close>

lemma open_audio_eq: "open_audio env i = ([AudioFileClip i], Inr (audio_of env i))"
  by (simp add: open_audio_def audio_of_def and_then_def act_def ret_def split: sum.splits)

lemma encode_eq:
  "encode env t w h tf =
     (case video_writer env t of
        Inl e \<Rightarrow> ([VideoWriter t ''mp4v'' (cap_fps env) w h], Inl e)
      | Inr u \<Rightarrow>
          (case snd (frame_loop env tf 0 (cap_frames env)) of
             Inl e \<Rightarrow> (VideoWriter t ''mp4v'' (cap_fps env) w h # fst (frame_loop env tf 0 (cap_frames env)), Inl e)
           | Inr u \<Rightarrow>
               (VideoWriter t ''mp4v'' (cap_fps env) w h # fst (frame_loop env tf 0 (cap_frames env))
                  @ [CapRelease, OutRelease], Inr ())))"
  by (simp add: encode_def and_then_def act_def lift_def split: sum.splits prod.splits)

lemma mux_eq:
  "mux env t outp a f =
     (case video_file_clip env t of
        Inl e \<Rightarrow> ([VideoFileClip t], Inl e)
      | Inr u \<Rightarrow>
     (case write_videofile env (final_args t outp a f) of
        Inl e \<Rightarrow> ([VideoFileClip t, WriteVideofile (final_args t outp a f)], Inl e)
      | Inr u \<Rightarrow>
     (case video_close env of
        Inl e \<Rightarrow> ([VideoFileClip t, WriteVideofile (final_args t outp a f), VideoClose], Inl e)
      | Inr u \<Rightarrow>
     (case (case a of Some c \<Rightarrow> ([AudioClose], audio_close env) | None \<Rightarrow> ([], Inr ())) of
        (tr, Inl e) \<Rightarrow> ([VideoFileClip t, WriteVideofile (final_args t outp a f), VideoClose] @ tr, Inl e)
      | (tr, Inr u) \<Rightarrow>
     (case os_remove env t of
        Inl e \<Rightarrow> ([VideoFileClip t, WriteVideofile (final_args t outp a f), VideoClose] @ tr @ [Remove t], Inl e)
      | Inr u \<Rightarrow>
          ([VideoFileClip t, WriteVideofile (final_args t outp a f), VideoClose] @ tr @
           [Remove t, Emit (Progress 100), Emit (Finished True outp)], Inr ()))))))"
  by (simp add: mux_def and_then_def act_def lift_def ret_def split: sum.splits prod.splits option.splits)

lemma run_body_eq:
  "run_body env i outp =
     (if \<not> cap_isOpened env
      then ([VideoCapture i],
            Inl (ValueError ''Could not open video file. Make sure Windows Media Player codecs are installed.''))
      else
        case py_int (cap_frame_width env) of Inl e \<Rightarrow> ([VideoCapture i], Inl e) | Inr w \<Rightarrow>
        case py_int (cap_frame_height env) of Inl e \<Rightarrow> ([VideoCapture i], Inl e) | Inr h \<Rightarrow>
        case py_int (cap_frame_count env) of Inl e \<Rightarrow> ([VideoCapture i], Inl e) | Inr tf \<Rightarrow>
        case snd (encode env (temp_path (os_platform env) outp) w h tf) of
          Inl e \<Rightarrow>
            (VideoCapture i # AudioFileClip i # fst (encode env (temp_path (os_platform env) outp) w h tf),
             Inl e)
        | Inr u \<Rightarrow>
            (VideoCapture i # AudioFileClip i # fst (encode env (temp_path (os_platform env) outp) w h tf)
               @ fst (mux env (temp_path (os_platform env) outp) outp (audio_of env i) (cap_fps env)),
             snd (mux env (temp_path (os_platform env) outp) outp (audio_of env i) (cap_fps env))))"
  by (simp add: run_body_def open_audio_eq and_then_def act_def lift_def raise_def
      split: sum.splits prod.splits)

lemma mux_emitted:
  "emitted (fst (mux env t outp a f)) =
     (case snd (mux env t outp a f) of Inl e \<Rightarrow> [] | Inr u \<Rightarrow> [Progress 100, Finished True outp])"
  by (simp add: mux_eq split: sum.splits option.splits)

lemma mux_muxed:
  "muxed (fst (mux env t outp a f)) =
     (case video_file_clip env t of Inl e \<Rightarrow> [] | Inr u \<Rightarrow> [final_args t outp a f])"
  by (simp add: mux_eq split: sum.splits option.splits)

lemma mux_removed_ok: "snd (mux env t outp a f) = Inr () \<Longrightarrow> removed (fst (mux env t outp a f)) = [t]"
  by (simp add: mux_eq split: sum.splits option.splits)

lemma mux_removed_write_fails:
  "write_videofile env (final_args t outp a f) = Inl e \<Longrightarrow> removed (fst (mux env t outp a f)) = []"
  by (simp add: mux_eq split: sum.splits option.splits)

lemma mux_other: "frames_written (fst (mux env t outp a f)) = [] \<and> writer_paths (fst (mux env t outp a f)) = []"
  by (simp add: mux_eq split: sum.splits option.splits)

lemma encode_emitted:
  "emitted (fst (encode env t w h tf)) =
     (case video_writer env t of Inl e \<Rightarrow> [] | Inr u \<Rightarrow> emitted (fst (frame_loop env tf 0 (cap_frames env))))"
  by (simp add: encode_eq split: sum.splits)

lemma encode_frames_written:
  "frames_written (fst (encode env t w h tf)) =
     (case video_writer env t of Inl e \<Rightarrow> [] | Inr u \<Rightarrow> frames_written (fst (frame_loop env tf 0 (cap_frames env))))"
  by (simp add: encode_eq split: sum.splits)

lemma encode_other:
  "muxed (fst (encode env t w h tf)) = [] \<and> removed (fst (encode env t w h tf)) = [] \<and>
   writer_paths (fst (encode env t w h tf)) = [t]"
  by (simp add: encode_eq frame_loop_events split: sum.splits)

lemma encode_snd:
  "snd (encode env t w h tf) =
     (case video_writer env t of Inl e \<Rightarrow> Inl e | Inr u \<Rightarrow> snd (frame_loop env tf 0 (cap_frames env)))"
  by (simp add: encode_eq split: sum.splits)

lemma encode_progress_only:
  "emitted (fst (encode env t w h tf)) = map Progress (percents (emitted (fst (encode env t w h tf))))"
  using frame_loop_events [of env tf 0 "cap_frames env"]
  by (simp add: encode_emitted split: sum.splits)

lemma run_body_emitted:
  "emitted (fst (run_body env i outp)) =
     map Progress (percents (emitted (fst (run_body env i outp)))) @
     (case snd (run_body env i outp) of Inl e \<Rightarrow> [] | Inr u \<Rightarrow> [Finished True outp])"
proof -
  have e: "map Progress (percents (emitted (fst (encode env t w h tf)))) =
      emitted (fst (encode env t w h tf))" for t w h tf
    using encode_progress_only [of env t w h tf] by simp
  show ?thesis
    by (simp add: run_body_eq mux_emitted e split: sum.splits)
qed

lemma run_emitted:
  "emitted (run env i outp) =
     map Progress (percents (emitted (run env i outp))) @
     [case snd (run_body env i outp) of
        Inl e \<Rightarrow> Finished False (str_exn e)
      | Inr u \<Rightarrow> Finished True outp]"
proof (cases "run_body env i outp")
  case (Pair tr r)
  then show ?thesis using run_body_emitted [of env i outp]
    by (cases r) (simp_all add: run_def)
qed

lemma succeeded_run: "succeeded (run env i outp) \<longleftrightarrow> snd (run_body env i outp) = Inr ()"
proof -
  have "list_ex is_success (map Progress ps) = False" for ps by (induction ps) simp_all
  then show ?thesis
    by (subst succeeded_def, subst run_emitted) (simp split: sum.splits)
qed

subsection \<open>The sample runs\<close>

lemma trunc_small:
  "trunc 0 = 0" "trunc 1 = 1" "trunc 2 = 2" "trunc 4 = 4" "trunc (- 1) = - 1"
  using trunc_of_int [of 0] trunc_of_int [of 1] trunc_of_int [of 2] trunc_of_int [of 4]
    trunc_of_int [of "- 1"]
  by simp_all

lemma progress_of_4:
  "progress_percent 1 4 = Inr 25" "progress_percent 2 4 = Inr 50"
  "progress_percent 3 4 = Inr 75" "progress_percent 4 4 = Inr 100"
  by (simp_all add: progress_percent_def int_truediv_def float_mul_def dbl_overflow_def trunc_def
      round_double_def ilog2_def pow2_def round_half_even_def Let_def compute_bitlen)

lemma progress_of_minus_1:
  "progress_percent 1 (- 1) = Inr (- 100)" "progress_percent 2 (- 1) = Inr (- 200)"
  "progress_percent 3 (- 1) = Inr (- 300)" "progress_percent 4 (- 1) = Inr (- 400)"
  using progress_percent_exact [of "- 1" "- 1"] progress_percent_exact [of "- 1" "- 2"]
    progress_percent_exact [of "- 1" "- 3"] progress_percent_exact [of "- 1" "- 4"]
  by simp_all

lemma temp_path_clip: "temp_path Posix ''clip.mp4'' = ''clip_temp.mp4''"
  by (simp add: temp_path_def splitext_def sep_index_def rfind_def)

lemma cvt_sample: "cvtColor_BGR2RGB sample_frame = [[(0, 0, 255), (30, 20, 10)]]"
  by (simp add: cvtColor_BGR2RGB_def sample_frame_def)

lemmas eval_run = run_def run_body_eq encode_eq mux_eq frame_loop_Cons audio_of_def final_args_def
  good_env_def audio_unreadable_def disk_full_def ret_def trunc_small temp_path_clip
  progress_of_4 progress_of_minus_1 progress_percent_zero_total cvt_sample

lemma run_good_env:
  "run good_env ''clip.wmv'' ''clip.mp4'' =
     [VideoCapture ''clip.wmv'', AudioFileClip ''clip.wmv'',
      VideoWriter ''clip_temp.mp4'' ''mp4v'' (Finite 25) 2 1,
      WriteFrame [[(0, 0, 255), (30, 20, 10)]], Emit (Progress 25),
      WriteFrame [[(0, 0, 255), (30, 20, 10)]], Emit (Progress 50),
      WriteFrame [[(0, 0, 255), (30, 20, 10)]], Emit (Progress 75),
      WriteFrame [[(0, 0, 255), (30, 20, 10)]], Emit (Progress 95),
      CapRelease, OutRelease, VideoFileClip ''clip_temp.mp4'',
      WriteVideofile
        \<lparr>clip = Clip ''clip_temp.mp4'' (Some (AudioClip ''clip.wmv'')), filename = ''clip.mp4'',
         codec = ''libx264'', audio_codec = Some ''aac'', fps = Finite 25, threads = 4,
         preset = ''slow'', bitrate = ''5000k''\<rparr>,
      VideoClose, AudioClose, Remove ''clip_temp.mp4'', Emit (Progress 100),
      Emit (Finished True ''clip.mp4'')]"
  by (simp add: eval_run)

lemma run_silent_env:
  "run (good_env\<lparr>audio_file_clip := audio_unreadable\<rparr>) ''clip.wmv'' ''clip.mp4'' =
     [VideoCapture ''clip.wmv'', AudioFileClip ''clip.wmv'',
      VideoWriter ''clip_temp.mp4'' ''mp4v'' (Finite 25) 2 1,
      WriteFrame [[(0, 0, 255), (30, 20, 10)]], Emit (Progress 25),
      WriteFrame [[(0, 0, 255), (30, 20, 10)]], Emit (Progress 50),
      WriteFrame [[(0, 0, 255), (30, 20, 10)]], Emit (Progress 75),
      WriteFrame [[(0, 0, 255), (30, 20, 10)]], Emit (Progress 95),
      CapRelease, OutRelease, VideoFileClip ''clip_temp.mp4'',
      WriteVideofile
        \<lparr>clip = Clip ''clip_temp.mp4'' None, filename = ''clip.mp4'',
         codec = ''libx264'', audio_codec = None, fps = Finite 25, threads = 4,
         preset = ''slow'', bitrate = ''5000k''\<rparr>,
      VideoClose, Remove ''clip_temp.mp4'', Emit (Progress 100),
      Emit (Finished True ''clip.mp4'')]"
  by (simp add: eval_run)

lemma run_negative_count:
  "emitted (run (good_env\<lparr>cap_frame_count := Finite (- 1)\<rparr>) ''clip.wmv'' ''clip.mp4'') =
     [Progress (- 100), Progress (- 200), Progress (- 300), Progress (- 400), Progress 100,
      Finished True ''clip.mp4'']"
  by (simp add: eval_run)

lemma run_zero_count:
  "run (good_env\<lparr>cap_frame_count := Finite 0\<rparr>) ''clip.wmv'' ''clip.mp4'' =
     [VideoCapture ''clip.wmv'', AudioFileClip ''clip.wmv'',
      VideoWriter ''clip_temp.mp4'' ''mp4v'' (Finite 25) 2 1,
      WriteFrame [[(0, 0, 255), (30, 20, 10)]],
      Emit (Finished False ''division by zero'')]"
  by (simp add: eval_run)

lemma run_zero_count_no_frames:
  "emitted (run (good_env\<lparr>cap_frame_count := Finite 0, cap_frames := []\<rparr>) ''clip.wmv'' ''clip.mp4'') =
     [Progress 100, Finished True ''clip.mp4'']"
  by (simp add: eval_run)

lemma run_disk_full:
  "run (good_env\<lparr>write_videofile := disk_full\<rparr>) ''clip.wmv'' ''clip.mp4'' =
     [VideoCapture ''clip.wmv'', AudioFileClip ''clip.wmv'',
      VideoWriter ''clip_temp.mp4'' ''mp4v'' (Finite 25) 2 1,
      WriteFrame [[(0, 0, 255), (30, 20, 10)]], Emit (Progress 25),
      WriteFrame [[(0, 0, 255), (30, 20, 10)]], Emit (Progress 50),
      WriteFrame [[(0, 0, 255), (30, 20, 10)]], Emit (Progress 75),
      WriteFrame [[(0, 0, 255), (30, 20, 10)]], Emit (Progress 95),
      CapRelease, OutRelease, VideoFileClip ''clip_temp.mp4'',
      WriteVideofile
        \<lparr>clip = Clip ''clip_temp.mp4'' (Some (AudioClip ''clip.wmv'')), filename = ''clip.mp4'',
         codec = ''libx264'', audio_codec = Some ''aac'', fps = Finite 25, threads = 4,
         preset = ''slow'', bitrate = ''5000k''\<rparr>,
      Emit (Finished False ''No space left on device'')]"
  by (simp add: eval_run)

subsection \<open>Whole runs\<close>

lemma run_frames_written:
  "prefix (frames_written (run env i outp)) (map cvtColor_BGR2RGB (cap_frames env)) \<and>
   (snd (run_body env i outp) = Inr () \<longrightarrow>
      frames_written (run env i outp) = map cvtColor_BGR2RGB (cap_frames env))"
proof -
  have a: "prefix (frames_written (fst (frame_loop env tf 0 (cap_frames env)))) (map cvtColor_BGR2RGB (cap_frames env))" for tf
    using frame_loop_written [of env tf 0 "cap_frames env"] by simp
  have b: "snd (frame_loop env tf 0 (cap_frames env)) = Inr () \<Longrightarrow>
      frames_written (fst (frame_loop env tf 0 (cap_frames env))) = map cvtColor_BGR2RGB (cap_frames env)" for tf
    using frame_loop_written [of env tf 0 "cap_frames env"] by simp
  show ?thesis
    by (simp add: run_def run_body_eq encode_frames_written encode_snd mux_other a b
        split: sum.splits prod.splits)
qed

lemma run_muxed:
  "muxed (run env i outp) = [] \<or>
   muxed (run env i outp) = [final_args (temp_path (os_platform env) outp) outp (audio_of env i) (cap_fps env)]"
  by (simp add: run_def run_body_eq encode_other mux_muxed split: sum.splits prod.splits)

lemma mux_muxed_ok:
  "snd (mux env t outp a f) = Inr () \<Longrightarrow> muxed (fst (mux env t outp a f)) = [final_args t outp a f]"
  by (simp add: mux_eq split: sum.splits option.splits prod.splits)

lemma run_body_ok:
  assumes "snd (run_body env i outp) = Inr ()"
  shows "\<exists>w h tf. cap_isOpened env \<and> py_int (cap_frame_width env) = Inr w \<and>
     py_int (cap_frame_height env) = Inr h \<and> py_int (cap_frame_count env) = Inr tf \<and>
     snd (encode env (temp_path (os_platform env) outp) w h tf) = Inr () \<and>
     snd (mux env (temp_path (os_platform env) outp) outp (audio_of env i) (cap_fps env)) = Inr () \<and>
     run env i outp =
       VideoCapture i # AudioFileClip i # fst (encode env (temp_path (os_platform env) outp) w h tf)
         @ fst (mux env (temp_path (os_platform env) outp) outp (audio_of env i) (cap_fps env))"
  using assms by (auto simp add: run_def run_body_eq split: sum.splits prod.splits if_splits)

lemma run_body_ok_intro:
  assumes "cap_isOpened env" "py_int (cap_frame_width env) = Inr w"
    "py_int (cap_frame_height env) = Inr h" "py_int (cap_frame_count env) = Inr tf"
    "snd (encode env (temp_path (os_platform env) outp) w h tf) = Inr ()"
    "snd (mux env (temp_path (os_platform env) outp) outp (audio_of env i) (cap_fps env)) = Inr ()"
  shows "snd (run_body env i outp) = Inr ()"
  using assms by (simp add: run_body_eq)

lemma run_muxed_ok:
  assumes "snd (run_body env i outp) = Inr ()"
  shows "muxed (run env i outp) =
     [final_args (temp_path (os_platform env) outp) outp (audio_of env i) (cap_fps env)]"
proof -
  from run_body_ok [OF assms] obtain w h tf where
    m: "snd (mux env (temp_path (os_platform env) outp) outp (audio_of env i) (cap_fps env)) = Inr ()"
    and r: "run env i outp =
       VideoCapture i # AudioFileClip i # fst (encode env (temp_path (os_platform env) outp) w h tf)
         @ fst (mux env (temp_path (os_platform env) outp) outp (audio_of env i) (cap_fps env))"
    by blast
  show ?thesis unfolding r by (simp add: encode_other mux_muxed_ok [OF m])
qed

lemma run_writer_paths:
  "set (writer_paths (run env i outp)) \<subseteq> {temp_path (os_platform env) outp}"
  by (simp add: run_def run_body_eq encode_other mux_other split: sum.splits prod.splits)

lemma last_emitted_run:
  "last (emitted (run env i outp)) =
     (case snd (run_body env i outp) of
        Inl e \<Rightarrow> Finished False (str_exn e)
      | Inr u \<Rightarrow> Finished True outp)"
  by (subst run_emitted) simp

lemma mux_ok_split:
  assumes "snd (mux env t outp a f) = Inr ()"
  shows "\<exists>post. fst (mux env t outp a f) = VideoFileClip t # WriteVideofile (final_args t outp a f) # post
     \<and> removed post = [t]"
  using assms by (simp add: mux_eq split: sum.splits option.splits prod.splits)

lemma run_write_fails:
  assumes "muxed (run env i outp) = [a]" "write_videofile env a = Inl e"
  shows "removed (run env i outp) = [] \<and> snd (run_body env i outp) = Inl e"
proof -
  let ?t = "temp_path (os_platform env) outp"
  let ?a = "final_args ?t outp (audio_of env i) (cap_fps env)"
  have a: "a = ?a" using run_muxed [of env i outp] assms(1) by simp
  have w: "write_videofile env ?a = Inl e" using assms(2) a by simp
  have m: "mux env ?t outp (audio_of env i) (cap_fps env) =
      (case video_file_clip env ?t of
         Inl e' \<Rightarrow> ([VideoFileClip ?t], Inl e')
       | Inr u \<Rightarrow> ([VideoFileClip ?t, WriteVideofile ?a], Inl e))"
    using w by (simp add: mux_eq split: sum.splits)
  show ?thesis using assms(1)
    by (auto simp add: run_def run_body_eq encode_other m split: sum.splits prod.splits if_splits)
qed

lemma frame_loop_audio_irrelevant:
  "frame_loop (env\<lparr>audio_file_clip := g\<rparr>) tf fc frs = frame_loop env tf fc frs"
  by (induction frs arbitrary: fc) (simp_all add: frame_loop_Cons split: sum.splits)

lemma run_audio_irrelevant:
  assumes "audio_of (env\<lparr>audio_file_clip := g\<rparr>) i = audio_of env i"
  shows "run (env\<lparr>audio_file_clip := g\<rparr>) i outp = run env i outp"
proof -
  have e: "encode (env\<lparr>audio_file_clip := g\<rparr>) t w h tf = encode env t w h tf" for t w h tf
    by (simp add: encode_def frame_loop_audio_irrelevant)
  have m: "mux (env\<lparr>audio_file_clip := g\<rparr>) t outp a f = mux env t outp a f" for t a f
    by (cases a) (simp_all add: mux_def)
  have "run_body (env\<lparr>audio_file_clip := g\<rparr>) i outp = run_body env i outp"
    by (simp add: run_body_def open_audio_eq assms e m)
  then show ?thesis by (simp add: run_def)
qed

lemma frame_loop_zero_total:
  "emitted (fst (frame_loop env 0 fc frs)) = []"
  by (cases frs) (simp_all add: frame_loop_Cons progress_percent_zero_total ret_def split: sum.splits)

lemma frame_loop_zero_total_fails:
  "frame_write env fc (cvtColor_BGR2RGB fr) = Inr () \<Longrightarrow>
   frame_loop env 0 fc (fr # rest) =
     ([WriteFrame (cvtColor_BGR2RGB fr)], Inl (ZeroDivisionError ''division by zero''))"
  by (simp add: frame_loop_Cons progress_percent_zero_total)

lemma run_percents_ok:
  assumes "snd (run_body env i outp) = Inr ()"
  shows "\<exists>tf. py_int (cap_frame_count env) = Inr tf \<and>
     percents (emitted (run env i outp)) =
       percents (emitted (fst (frame_loop env tf 0 (cap_frames env)))) @ [100] \<and>
     snd (frame_loop env tf 0 (cap_frames env)) = Inr ()"
proof -
  let ?t = "temp_path (os_platform env) outp"
  from run_body_ok [OF assms] obtain w h tf where
    c: "py_int (cap_frame_count env) = Inr tf"
    and en: "snd (encode env ?t w h tf) = Inr ()"
    and m: "snd (mux env ?t outp (audio_of env i) (cap_fps env)) = Inr ()"
    and r: "run env i outp =
       VideoCapture i # AudioFileClip i # fst (encode env ?t w h tf)
         @ fst (mux env ?t outp (audio_of env i) (cap_fps env))"
    by blast
  have vw: "video_writer env ?t = Inr ()" and lp: "snd (frame_loop env tf 0 (cap_frames env)) = Inr ()"
    using en by (simp_all add: encode_snd split: sum.splits)
  have "percents (emitted (run env i outp)) =
      percents (emitted (fst (frame_loop env tf 0 (cap_frames env)))) @ [100]"
    unfolding r by (simp add: encode_emitted vw mux_emitted m)
  then show ?thesis using c lp by blast
qed

lemma butlast_percents_ok:
  assumes "snd (run_body env i outp) = Inr ()"
  shows "list_all (\<lambda>p. p \<le> 95) (butlast (percents (emitted (run env i outp))))
    \<and> last (percents (emitted (run env i outp))) = 100"
proof -
  from run_percents_ok [OF assms] obtain tf where
    p: "percents (emitted (run env i outp)) =
       percents (emitted (fst (frame_loop env tf 0 (cap_frames env)))) @ [100]"
    by blast
  show ?thesis unfolding p using frame_loop_events [of env tf 0 "cap_frames env"] by simp
qed

lemma sorted_percents_ok:
  assumes "snd (run_body env i outp) = Inr ()" "py_int (cap_frame_count env) = Inr tf" "0 \<le> tf"
  shows "sorted (percents (emitted (run env i outp)))"
proof -
  from run_percents_ok [OF assms(1)] assms(2) have
    p: "percents (emitted (run env i outp)) =
       percents (emitted (fst (frame_loop env tf 0 (cap_frames env)))) @ [100]"
    by auto
  let ?ps = "percents (emitted (fst (frame_loop env tf 0 (cap_frames env))))"
  have le: "\<forall>q \<in> set ?ps. q \<le> 100"
    using frame_loop_events [of env tf 0 "cap_frames env"] by (auto simp add: list_all_iff)
  have "sorted ?ps"
  proof (cases "tf = 0")
    case True
    then show ?thesis by (simp add: frame_loop_zero_total)
  next
    case False
    then have "0 < tf" using assms(3) by simp
    then show ?thesis using frame_loop_sorted [of tf env 0 "cap_frames env"] by blast
  qed
  then show ?thesis unfolding p using le by (simp add: sorted_append)
qed

section \<open>Facts about the window\<close>

text \<open>
  The drop filter in terms of matching up to case, and the two parts of a path that
  \<open>os.path.splitext\<close> returns.
\<close>

lemma endswith_lower:
  assumes "map lower_char ext = ext"
  shows "endswith (lower p) ext \<longleftrightarrow> ends_with_ignoring_case p ext"
proof -
  have "(map lower_char xs = ext) = list_all2 same_letter xs ext" for xs
  proof -
    have "list_all2 same_letter xs ext = (map lower_char xs = map lower_char ext)"
      unfolding same_letter_def by (auto simp add: list_all2_conv_all_nth list_eq_iff_nth_eq)
    then show ?thesis using assms by simp
  qed
  then show ?thesis
    by (simp add: endswith_def ends_with_ignoring_case_def lower_def drop_map)
qed

lemma supported_formats_lower: "\<forall>ext \<in> set supported_formats. map lower_char ext = ext"
  by code_simp

lemma drop_accepts_iff:
  "drop_accepts (p # rest) \<longleftrightarrow> (\<exists>ext \<in> set supported_formats. ends_with_ignoring_case p ext)"
  using supported_formats_lower
  by (simp add: drop_accepts_def list_ex_iff endswith_lower)

lemma rfind_split:
  assumes "c \<in> set p"
  shows "0 \<le> rfind p c \<and> p = take (nat (rfind p c)) p @ c # rev (takeWhile (\<lambda>x. x \<noteq> c) (rev p))"
proof -
  let ?P = "\<lambda>x. x \<noteq> c"
  let ?tw = "takeWhile ?P (rev p)"
  let ?dw = "dropWhile ?P (rev p)"
  have "c \<in> set (rev p)" using assms by simp
  then have ne: "?dw \<noteq> []" by (simp add: dropWhile_eq_Nil_conv)
  then have hd: "hd ?dw = c" using hd_dropWhile [of ?P "rev p"] by simp
  then obtain rest where dw: "?dw = c # rest" using ne by (cases ?dw) auto
  have "rev p = ?tw @ c # rest" using takeWhile_dropWhile_id [of ?P "rev p"] dw by simp
  then have "rev (rev p) = rev (?tw @ c # rest)" by simp
  then have p: "p = rev rest @ c # rev ?tw" by simp
  have len: "length p = length rest + 1 + length ?tw" using arg_cong [OF p, of length] by simp
  have r: "rfind p c = int (length rest)" using assms len by (simp add: rfind_def)
  have "take (length rest) p = rev rest" by (subst p) simp
  then show ?thesis using p r by simp
qed

lemma splitext_append: "fst (splitext pf p) @ snd (splitext pf p) = p"
  by (simp add: splitext_def Let_def)

lemma splitext_ext:
  assumes "snd (splitext pf p) \<noteq> []"
  shows "hd (snd (splitext pf p)) = CHR ''.'' \<and> CHR ''.'' \<notin> set (tl (snd (splitext pf p)))"
proof -
  let ?d = "rfind p (CHR ''.'')"
  have s: "snd (splitext pf p) = drop (nat ?d) p" and gt: "sep_index pf p < ?d"
    using assms by (auto simp add: splitext_def Let_def split: if_splits)
  have "- 1 \<le> rfind p c" for c
    using length_takeWhile_le [of "\<lambda>x. x \<noteq> c" "rev p"] by (simp add: rfind_def)
  then have "- 1 \<le> sep_index pf p"
    by (cases pf) (simp_all add: sep_index_def le_max_iff_disj)
  then have "0 \<le> ?d" using gt by simp
  then have "CHR ''.'' \<in> set p" by (auto simp add: rfind_def split: if_splits)
  from rfind_split [OF this] have
    p: "p = take (nat ?d) p @ CHR ''.'' # rev (takeWhile (\<lambda>x. x \<noteq> CHR ''.'') (rev p))"
    by simp
  have "length (take (nat ?d) p) = nat ?d"
    using arg_cong [OF p, of length] by simp
  then have "drop (nat ?d) p = CHR ''.'' # rev (takeWhile (\<lambda>x. x \<noteq> CHR ''.'') (rev p))"
    using p by (metis append_eq_conv_conj)
  moreover have "CHR ''.'' \<notin> set (takeWhile (\<lambda>x. x \<noteq> CHR ''.'') (rev p))"
    using set_takeWhileD by fastforce
  ultimately show ?thesis unfolding s by simp
qed

lemma output_format_items:
  "map output_format format_items = [Inr ''mp4'', Inr ''mov'', Inr ''avi'', Inr ''mkv'']"
  by code_simp

lemma sample_drops:
  "drop_accepts [''Movie.WMV'']" "\<not> drop_accepts [''notes.txt'']"
  by code_simp+

lemma sample_paths:
  "splitext Posix ''clip.wmv'' = (''clip'', ''.wmv'')"
  "splitext Posix ''clip.mp4'' = (''clip'', ''.mp4'')"
  "splitext Posix ''clip.MP4'' = (''clip'', ''.MP4'')"
  by (simp_all add: splitext_def sep_index_def rfind_def)

lemma lower_MP4: "lower ''.MP4'' = ''.mp4''"
  by code_simp

lemma run_muxed_filename:
  "list_all (\<lambda>a. filename a = outp) (muxed (run env i outp))
   \<and> (snd (run_body env i outp) = Inr () \<longrightarrow> map filename (muxed (run env i outp)) = [outp])"
  using run_muxed [of env i outp] run_muxed_ok [of env i outp]
  by (auto simp add: final_args_def)

section \<open>The claims about the worker\<close>

text \<open>
  C2. When the input cannot be opened as a video source (\<open>cap.isOpened()\<close> is false,
  as for a path that does not exist), the run ends with the failure whose message is the
  one below, which names missing codecs as the cause, and no progress event is emitted.
  The exception raised is a \<open>ValueError\<close>; the spec calls this failure DecodeOpenError.
\<close>

theorem unopened_input_fails_at_once:
  assumes "\<not> cap_isOpened env"
  shows "run env i outp =
      [VideoCapture i,
       Emit (Finished False
         ''Could not open video file. Make sure Windows Media Player codecs are installed.'')]
    \<and> percents (emitted (run env i outp)) = []
    \<and> sublist ''codecs are installed''
         ''Could not open video file. Make sure Windows Media Player codecs are installed.''"
proof -
  have "''Could not open video file. Make sure Windows Media Player codecs are installed.'' =
      ''Could not open video file. Make sure Windows Media Player '' @ ''codecs are installed'' @ ''.''"
    by simp
  then have "sublist ''codecs are installed''
      ''Could not open video file. Make sure Windows Media Player codecs are installed.''"
    unfolding sublist_def by blast
  then show ?thesis using assms by (simp add: run_def run_body_eq)
qed

theorem unopened_input_fails_at_once_witness:
  "\<not> cap_isOpened (good_env\<lparr>cap_isOpened := False\<rparr>) \<and>
   emitted (run (good_env\<lparr>cap_isOpened := False\<rparr>) ''missing.wmv'' ''missing.mp4'') =
     [Finished False
        ''Could not open video file. Make sure Windows Media Player codecs are installed.'']"
  using unopened_input_fails_at_once [of "good_env\<lparr>cap_isOpened := False\<rparr>" "''missing.wmv''" "''missing.mp4''"]
  by (simp add: good_env_def)

text \<open>
  C3. Whatever exception the body of \<open>run\<close> raises, at whatever step, the events of the
  run are progress events followed by one finished event, and there is exactly one finished
  event: a failure carrying \<open>str(e)\<close> when the body raised \<open>e\<close>, the success event
  otherwise. Nothing leaves \<open>run\<close> but this list of calls.
\<close>

theorem every_exception_becomes_one_finished_event:
  "emitted (run env i outp) =
     map Progress (percents (emitted (run env i outp))) @
     [case snd (run_body env i outp) of
        Inl e \<Rightarrow> Finished False (str_exn e)
      | Inr u \<Rightarrow> Finished True outp]
   \<and> length (filter is_finished (emitted (run env i outp))) = 1"
proof -
  have "filter is_finished (map Progress ps) = []" for ps by (induction ps) simp_all
  then have "length (filter is_finished (map Progress ps @ [ev])) = 1" if "is_finished ev" for ps ev
    using that by simp
  moreover have "is_finished (case snd (run_body env i outp) of
        Inl e \<Rightarrow> Finished False (str_exn e) | Inr u \<Rightarrow> Finished True outp)"
    by (simp split: sum.splits)
  ultimately show ?thesis using run_emitted [of env i outp] by metis
qed

text \<open>
  C5. The frames handed to \<open>out.write\<close> are, in order, the decoded frames after
  \<open>cv2.cvtColor(frame, cv2.COLOR_BGR2RGB)\<close>: always a prefix of the converted input
  frames, and all of them when the run succeeds. The conversion swaps the first and the
  third channel of a pixel.
\<close>

theorem every_written_frame_is_converted:
  "prefix (frames_written (run env i outp)) (map cvtColor_BGR2RGB (cap_frames env))
   \<and> (succeeded (run env i outp) \<longrightarrow>
        frames_written (run env i outp) = map cvtColor_BGR2RGB (cap_frames env))
   \<and> cvtColor_BGR2RGB [[(b, g, r)]] = [[(r, g, b)]]"
  using run_frames_written [of env i outp]
  by (simp add: succeeded_run cvtColor_BGR2RGB_def)

theorem every_written_frame_is_converted_witness:
  "succeeded (run good_env ''clip.wmv'' ''clip.mp4'') \<and>
   frames_written (run good_env ''clip.wmv'' ''clip.mp4'') =
     map cvtColor_BGR2RGB (cap_frames good_env)"
proof -
  have s: "succeeded (run good_env ''clip.wmv'' ''clip.mp4'')"
    by (simp add: run_good_env succeeded_def)
  then show ?thesis
    using every_written_frame_is_converted [of good_env "''clip.wmv''" "''clip.mp4''"] by blast
qed

text \<open>
  C6. The intermediate file is the output path's stem followed by \<open>_temp.mp4\<close>, and it is
  the only path a video writer is opened on. In a successful run the call of
  \<open>os.remove\<close> on it comes after the call of \<open>write_videofile\<close>, and nothing is removed
  before. When \<open>write_videofile\<close> is called and raises, \<open>os.remove\<close> is never called:
  the run ends with the failure carrying that exception's message and the intermediate
  file stays.
\<close>

theorem temp_file_removed_only_after_the_mux:
  "temp_path pf outp = fst (splitext pf outp) @ ''_temp.mp4''
   \<and> set (writer_paths (run env i outp)) \<subseteq> {temp_path (os_platform env) outp}
   \<and> (succeeded (run env i outp) \<longrightarrow>
        (\<exists>pre post.
           run env i outp =
             pre @ WriteVideofile (final_args (temp_path (os_platform env) outp) outp
                                     (audio_of env i) (cap_fps env)) # post
           \<and> removed pre = [] \<and> removed post = [temp_path (os_platform env) outp]))
   \<and> (muxed (run env i outp) = [a] \<and> write_videofile env a = Inl e \<longrightarrow>
        removed (run env i outp) = []
        \<and> last (emitted (run env i outp)) = Finished False (str_exn e))"
proof -
  let ?t = "temp_path (os_platform env) outp"
  let ?a = "final_args ?t outp (audio_of env i) (cap_fps env)"
  have ok: "\<exists>pre post. run env i outp = pre @ WriteVideofile ?a # post
      \<and> removed pre = [] \<and> removed post = [?t]" if "succeeded (run env i outp)"
  proof -
    have b: "snd (run_body env i outp) = Inr ()" using that by (simp add: succeeded_run)
    from run_body_ok [OF b] obtain w h tf where
      m: "snd (mux env ?t outp (audio_of env i) (cap_fps env)) = Inr ()"
      and r: "run env i outp =
         VideoCapture i # AudioFileClip i # fst (encode env ?t w h tf)
           @ fst (mux env ?t outp (audio_of env i) (cap_fps env))"
      by blast
    from mux_ok_split [OF m] obtain post where
      p: "fst (mux env ?t outp (audio_of env i) (cap_fps env)) = VideoFileClip ?t # WriteVideofile ?a # post"
      and q: "removed post = [?t]"
      by blast
    have "run env i outp =
        (VideoCapture i # AudioFileClip i # fst (encode env ?t w h tf) @ [VideoFileClip ?t])
          @ WriteVideofile ?a # post"
      unfolding r p by simp
    moreover have "removed (VideoCapture i # AudioFileClip i # fst (encode env ?t w h tf) @ [VideoFileClip ?t]) = []"
      by (simp add: encode_other)
    ultimately show ?thesis using q by blast
  qed
  have bad: "removed (run env i outp) = [] \<and> last (emitted (run env i outp)) = Finished False (str_exn e)"
    if "muxed (run env i outp) = [a]" "write_videofile env a = Inl e"
    using run_write_fails [OF that] by (simp add: last_emitted_run)
  show ?thesis using ok bad run_writer_paths [of env i outp] by (simp add: temp_path_def)
qed

theorem temp_file_removed_only_after_the_mux_witness:
  "succeeded (run good_env ''clip.wmv'' ''clip.mp4'')
   \<and> removed (run good_env ''clip.wmv'' ''clip.mp4'') = [''clip_temp.mp4'']
   \<and> muxed (run (good_env\<lparr>write_videofile := disk_full\<rparr>) ''clip.wmv'' ''clip.mp4'') =
       [final_args ''clip_temp.mp4'' ''clip.mp4'' (Some (AudioClip ''clip.wmv'')) (Finite 25)]
   \<and> write_videofile (good_env\<lparr>write_videofile := disk_full\<rparr>)
        (final_args ''clip_temp.mp4'' ''clip.mp4'' (Some (AudioClip ''clip.wmv'')) (Finite 25)) =
       Inl (LibraryError ''No space left on device'')
   \<and> removed (run (good_env\<lparr>write_videofile := disk_full\<rparr>) ''clip.wmv'' ''clip.mp4'') = []
   \<and> last (emitted (run (good_env\<lparr>write_videofile := disk_full\<rparr>) ''clip.wmv'' ''clip.mp4'')) =
       Finished False ''No space left on device''"
proof -
  let ?bad = "good_env\<lparr>write_videofile := disk_full\<rparr>"
  let ?a = "final_args ''clip_temp.mp4'' ''clip.mp4'' (Some (AudioClip ''clip.wmv'')) (Finite 25)"
  have s: "succeeded (run good_env ''clip.wmv'' ''clip.mp4'')"
    by (simp add: run_good_env succeeded_def)
  have t: "temp_path (os_platform good_env) ''clip.mp4'' = ''clip_temp.mp4''"
    by (simp add: good_env_def temp_path_clip)
  from s temp_file_removed_only_after_the_mux [of Posix "''clip.mp4''" good_env "''clip.wmv''"]
  obtain pre post where "run good_env ''clip.wmv'' ''clip.mp4'' = pre @ WriteVideofile
      (final_args (temp_path (os_platform good_env) ''clip.mp4'') ''clip.mp4''
         (audio_of good_env ''clip.wmv'') (cap_fps good_env)) # post"
    "removed pre = []" "removed post = [temp_path (os_platform good_env) ''clip.mp4'']"
    by blast
  then have r1: "removed (run good_env ''clip.wmv'' ''clip.mp4'') = [''clip_temp.mp4'']"
    by (simp add: t)
  have m: "muxed (run ?bad ''clip.wmv'' ''clip.mp4'') = [?a]"
    by (simp add: run_disk_full final_args_def)
  have w: "write_videofile ?bad ?a = Inl (LibraryError ''No space left on device'')"
    by (simp add: disk_full_def)
  have "removed (run ?bad ''clip.wmv'' ''clip.mp4'') = [] \<and>
      last (emitted (run ?bad ''clip.wmv'' ''clip.mp4'')) =
        Finished False (str_exn (LibraryError ''No space left on device''))"
    using temp_file_removed_only_after_the_mux [of Posix "''clip.mp4''" ?bad "''clip.wmv''" ?a
        "LibraryError ''No space left on device''"] m w
    by blast
  then show ?thesis using s r1 m w by simp
qed

text \<open>
  C4. When \<open>mpy.AudioFileClip\<close> raises, whatever it raises, \<open>audio_clip\<close> is \<open>None\<close> and the
  run goes on: every call of \<open>write_videofile\<close> it makes is on the clip without audio
  and with \<open>audio_codec = None\<close>, the run does not depend on which exception the audio
  step raised, and when the remaining steps raise nothing (the capture opens, the three
  sizes convert, the encode phase and the mux of the silent clip succeed) the run ends
  with the success event.
\<close>

theorem audio_failure_is_not_fatal:
  assumes "audio_file_clip env i = Inl e"
  shows "audio_of env i = None
    \<and> list_all (\<lambda>a. clip a = Clip (temp_path (os_platform env) outp) None \<and> audio_codec a = None)
         (muxed (run env i outp))
    \<and> run (env\<lparr>audio_file_clip := (\<lambda>p. Inl e')\<rparr>) i outp = run env i outp
    \<and> (cap_isOpened env \<and> py_int (cap_frame_width env) = Inr w
         \<and> py_int (cap_frame_height env) = Inr h \<and> py_int (cap_frame_count env) = Inr tf
         \<and> snd (encode env (temp_path (os_platform env) outp) w h tf) = Inr ()
         \<and> snd (mux env (temp_path (os_platform env) outp) outp None (cap_fps env)) = Inr ()
       \<longrightarrow> succeeded (run env i outp)
           \<and> last (emitted (run env i outp)) = Finished True outp
           \<and> muxed (run env i outp) =
               [final_args (temp_path (os_platform env) outp) outp None (cap_fps env)])"
proof -
  let ?t = "temp_path (os_platform env) outp"
  have a: "audio_of env i = None" using assms by (simp add: audio_of_def)
  have b: "list_all (\<lambda>a. clip a = Clip ?t None \<and> audio_codec a = None) (muxed (run env i outp))"
    using run_muxed [of env i outp] by (auto simp add: a final_args_def)
  have "audio_of (env\<lparr>audio_file_clip := (\<lambda>p. Inl e')\<rparr>) i = audio_of env i"
    unfolding a by (simp add: audio_of_def)
  then have c: "run (env\<lparr>audio_file_clip := (\<lambda>p. Inl e')\<rparr>) i outp = run env i outp"
    by (rule run_audio_irrelevant)
  have d: "succeeded (run env i outp) \<and> last (emitted (run env i outp)) = Finished True outp
      \<and> muxed (run env i outp) = [final_args ?t outp None (cap_fps env)]"
    if "cap_isOpened env" "py_int (cap_frame_width env) = Inr w"
      "py_int (cap_frame_height env) = Inr h" "py_int (cap_frame_count env) = Inr tf"
      "snd (encode env ?t w h tf) = Inr ()" "snd (mux env ?t outp None (cap_fps env)) = Inr ()"
  proof -
    have "snd (mux env ?t outp (audio_of env i) (cap_fps env)) = Inr ()" using that(6) a by simp
    then have ok: "snd (run_body env i outp) = Inr ()"
      using that(1-5) by (intro run_body_ok_intro)
    show ?thesis using run_muxed_ok [OF ok] ok by (simp add: succeeded_run last_emitted_run a)
  qed
  show ?thesis using a b c d by blast
qed

theorem audio_failure_is_not_fatal_witness:
  "audio_file_clip (good_env\<lparr>audio_file_clip := audio_unreadable\<rparr>) ''clip.wmv'' =
     Inl (LibraryError ''no audio stream'')
   \<and> succeeded (run (good_env\<lparr>audio_file_clip := audio_unreadable\<rparr>) ''clip.wmv'' ''clip.mp4'')
   \<and> last (emitted (run (good_env\<lparr>audio_file_clip := audio_unreadable\<rparr>) ''clip.wmv'' ''clip.mp4'')) =
       Finished True ''clip.mp4''
   \<and> muxed (run (good_env\<lparr>audio_file_clip := audio_unreadable\<rparr>) ''clip.wmv'' ''clip.mp4'') =
       [final_args ''clip_temp.mp4'' ''clip.mp4'' None (Finite 25)]"
proof -
  let ?env = "good_env\<lparr>audio_file_clip := audio_unreadable\<rparr>"
  have h1: "audio_file_clip ?env ''clip.wmv'' = Inl (LibraryError ''no audio stream'')"
    by (simp add: audio_unreadable_def)
  have t: "temp_path (os_platform ?env) ''clip.mp4'' = ''clip_temp.mp4''"
    by (simp add: good_env_def temp_path_clip)
  have f: "cap_fps ?env = Finite 25" by (simp add: good_env_def)
  have h2: "cap_isOpened ?env \<and> py_int (cap_frame_width ?env) = Inr 2
      \<and> py_int (cap_frame_height ?env) = Inr 1 \<and> py_int (cap_frame_count ?env) = Inr 4"
    by (simp add: good_env_def trunc_small trunc_def)
  have h3: "snd (encode ?env ''clip_temp.mp4'' 2 1 4) = Inr ()"
    by (simp add: eval_run)
  have h4: "snd (mux ?env ''clip_temp.mp4'' ''clip.mp4'' None (Finite 25)) = Inr ()"
    by (simp add: eval_run)
  show ?thesis
    using audio_failure_is_not_fatal [of ?env "''clip.wmv''" "LibraryError ''no audio stream''"
        "''clip.mp4''" "LibraryError ''no audio stream''" 2 1 4] h1 h2 h3 h4
    unfolding t f by blast
qed

text \<open>
  C10. With a frame count of 0 read from the container (and the capture and the writer
  opened), the first progress computation \<open>1 / 0\<close> raises ZeroDivisionError. If a first
  frame is decoded and written, that exception ends the body: the only event of the run is
  the failure with the message \<open>division by zero\<close>. If no frame is decoded, the loop ends
  at once without dividing and the encode phase emits no progress event; the only
  progress event such a run can still emit is the final 100 after the mux.
\<close>

theorem zero_frame_count_divides_by_zero:
  assumes "cap_isOpened env" "py_int (cap_frame_width env) = Inr w"
    "py_int (cap_frame_height env) = Inr h" "py_int (cap_frame_count env) = Inr 0"
    "video_writer env (temp_path (os_platform env) outp) = Inr ()"
  shows "progress_percent 1 0 = Inl (ZeroDivisionError ''division by zero'')
    \<and> (cap_frames env = fr # rest \<and> frame_write env 0 (cvtColor_BGR2RGB fr) = Inr () \<longrightarrow>
         snd (run_body env i outp) = Inl (ZeroDivisionError ''division by zero'')
         \<and> emitted (run env i outp) = [Finished False ''division by zero''])
    \<and> (cap_frames env = [] \<longrightarrow>
         frame_loop env 0 0 (cap_frames env) = ([], Inr ())
         \<and> emitted (fst (encode env (temp_path (os_platform env) outp) w h 0)) = []
         \<and> (percents (emitted (run env i outp)) = [] \<or> percents (emitted (run env i outp)) = [100]))"
proof -
  let ?t = "temp_path (os_platform env) outp"
  have a: "snd (run_body env i outp) = Inl (ZeroDivisionError ''division by zero'')
      \<and> emitted (run env i outp) = [Finished False ''division by zero'']"
    if "cap_frames env = fr # rest" "frame_write env 0 (cvtColor_BGR2RGB fr) = Inr ()"
  proof -
    have l: "frame_loop env 0 0 (cap_frames env) =
        ([WriteFrame (cvtColor_BGR2RGB fr)], Inl (ZeroDivisionError ''division by zero''))"
      unfolding that(1) using that(2) by (rule frame_loop_zero_total_fails)
    show ?thesis using assms by (simp add: run_def run_body_eq encode_eq l)
  qed
  have b: "frame_loop env 0 0 (cap_frames env) = ([], Inr ())
      \<and> emitted (fst (encode env ?t w h 0)) = []
      \<and> (percents (emitted (run env i outp)) = [] \<or> percents (emitted (run env i outp)) = [100])"
    if "cap_frames env = []"
  proof -
    have l: "frame_loop env 0 0 (cap_frames env) = ([], Inr ())" by (simp add: that ret_def)
    have e: "emitted (fst (encode env ?t w h 0)) = []" using assms(5) by (simp add: encode_eq l)
    have "percents (emitted (run env i outp)) = [] \<or> percents (emitted (run env i outp)) = [100]"
      using assms by (simp add: run_def run_body_eq e mux_emitted split: sum.splits)
    then show ?thesis using l e by blast
  qed
  show ?thesis using a b by (simp add: progress_percent_zero_total)
qed

theorem zero_frame_count_divides_by_zero_witness:
  "cap_isOpened good_env
   \<and> py_int (cap_frame_count (good_env\<lparr>cap_frame_count := Finite 0\<rparr>)) = Inr 0
   \<and> emitted (run (good_env\<lparr>cap_frame_count := Finite 0\<rparr>) ''clip.wmv'' ''clip.mp4'') =
       [Finished False ''division by zero'']
   \<and> cap_frames (good_env\<lparr>cap_frame_count := Finite 0, cap_frames := []\<rparr>) = []
   \<and> emitted (fst (encode (good_env\<lparr>cap_frame_count := Finite 0, cap_frames := []\<rparr>)
        ''clip_temp.mp4'' 2 1 0)) = []"
proof -
  let ?e1 = "good_env\<lparr>cap_frame_count := Finite 0\<rparr>"
  let ?e2 = "good_env\<lparr>cap_frame_count := Finite 0, cap_frames := []\<rparr>"
  have t1: "temp_path (os_platform ?e1) ''clip.mp4'' = ''clip_temp.mp4''"
    and t2: "temp_path (os_platform ?e2) ''clip.mp4'' = ''clip_temp.mp4''"
    by (simp_all add: good_env_def temp_path_clip)
  have p1: "cap_isOpened ?e1 \<and> py_int (cap_frame_width ?e1) = Inr 2
      \<and> py_int (cap_frame_height ?e1) = Inr 1 \<and> py_int (cap_frame_count ?e1) = Inr 0
      \<and> video_writer ?e1 (temp_path (os_platform ?e1) ''clip.mp4'') = Inr ()
      \<and> cap_frames ?e1 = sample_frame # [sample_frame, sample_frame, sample_frame]
      \<and> frame_write ?e1 0 (cvtColor_BGR2RGB sample_frame) = Inr ()"
    by (simp add: good_env_def trunc_small)
  have p2: "cap_isOpened ?e2 \<and> py_int (cap_frame_width ?e2) = Inr 2
      \<and> py_int (cap_frame_height ?e2) = Inr 1 \<and> py_int (cap_frame_count ?e2) = Inr 0
      \<and> video_writer ?e2 (temp_path (os_platform ?e2) ''clip.mp4'') = Inr ()
      \<and> cap_frames ?e2 = []"
    by (simp add: good_env_def trunc_small)
  have r1: "emitted (run ?e1 ''clip.wmv'' ''clip.mp4'') = [Finished False ''division by zero'']"
    using zero_frame_count_divides_by_zero [of ?e1 2 1 "''clip.mp4''" sample_frame
        "[sample_frame, sample_frame, sample_frame]" "''clip.wmv''"] p1
    by blast
  have r2: "emitted (fst (encode ?e2 (temp_path (os_platform ?e2) ''clip.mp4'') 2 1 0)) = []"
    using zero_frame_count_divides_by_zero [of ?e2 2 1 "''clip.mp4''" sample_frame
        "[]" "''clip.wmv''"] p2
    by blast
  show ?thesis using r1 r2 p1 p2 unfolding t2 by (simp add: good_env_def)
qed

text \<open>
  C1, amended. In a run that succeeds, every progress event of the frame loop is at most
  95, the last progress event is exactly 100 and the last event is the success event. The
  progress events are non-decreasing when the frame count read from the container is not
  negative. The claim as written asks for this on every successful run; the sample file
  with a frame count of -1 succeeds with the percentages -100, -200, -300, -400, 100.
  A run is successful when it emits \<open>conversion_finished(True, _)\<close>.
\<close>

theorem progress_is_monotone_unless_frame_count_negative:
  assumes "succeeded (run env i outp)"
  shows "list_all (\<lambda>p. p \<le> 95) (butlast (percents (emitted (run env i outp))))
    \<and> last (percents (emitted (run env i outp))) = 100
    \<and> last (emitted (run env i outp)) = Finished True outp
    \<and> (py_int (cap_frame_count env) = Inr tf \<and> 0 \<le> tf \<longrightarrow>
         sorted (percents (emitted (run env i outp))))"
proof -
  have ok: "snd (run_body env i outp) = Inr ()" using assms by (simp add: succeeded_run)
  show ?thesis
    using butlast_percents_ok [OF ok] sorted_percents_ok [OF ok, of tf]
    by (simp add: last_emitted_run ok)
qed

theorem progress_is_monotone_unless_frame_count_negative_witness:
  "succeeded (run good_env ''clip.wmv'' ''clip.mp4'')
   \<and> py_int (cap_frame_count good_env) = Inr 4
   \<and> percents (emitted (run good_env ''clip.wmv'' ''clip.mp4'')) = [25, 50, 75, 95, 100]
   \<and> sorted (percents (emitted (run good_env ''clip.wmv'' ''clip.mp4'')))
   \<and> last (emitted (run good_env ''clip.wmv'' ''clip.mp4'')) = Finished True ''clip.mp4''"
proof -
  have s: "succeeded (run good_env ''clip.wmv'' ''clip.mp4'')"
    by (simp add: run_good_env succeeded_def)
  have c: "py_int (cap_frame_count good_env) = Inr 4" by (simp add: good_env_def trunc_small)
  have p: "percents (emitted (run good_env ''clip.wmv'' ''clip.mp4'')) = [25, 50, 75, 95, 100]"
    by (simp add: run_good_env)
  have "sorted (percents (emitted (run good_env ''clip.wmv'' ''clip.mp4'')))
      \<and> last (emitted (run good_env ''clip.wmv'' ''clip.mp4'')) = Finished True ''clip.mp4''"
    using progress_is_monotone_unless_frame_count_negative [OF s, of 4] c by simp
  then show ?thesis using s c p by blast
qed

theorem progress_decreases_for_negative_frame_count:
  "succeeded (run (good_env\<lparr>cap_frame_count := Finite (- 1)\<rparr>) ''clip.wmv'' ''clip.mp4'')
   \<and> percents (emitted (run (good_env\<lparr>cap_frame_count := Finite (- 1)\<rparr>) ''clip.wmv'' ''clip.mp4'')) =
       [- 100, - 200, - 300, - 400, 100]
   \<and> \<not> sorted (percents (emitted (run (good_env\<lparr>cap_frame_count := Finite (- 1)\<rparr>) ''clip.wmv'' ''clip.mp4'')))"
  by (simp add: run_negative_count succeeded_def)

section \<open>The claims about the window\<close>

text \<open>
  C7. For each of the four entries of the format box, \<open>split()[0].lower()\<close> gives
  \<open>mp4\<close>, \<open>mov\<close>, \<open>avi\<close>, \<open>mkv\<close>: the text after the first word is dropped and the word
  is lower-cased. A job that is started (an input is selected and exists) hands the worker
  the input path and, as output path, the input's stem followed by a dot and that
  extension. Stem and extension are the two parts \<open>os.path.splitext\<close> cuts the input path
  into: together they give the path back, and the extension, when there is one, starts at
  the path's last dot.
\<close>

theorem output_path_replaces_the_extension:
  "map output_format format_items = [Inr ''mp4'', Inr ''mov'', Inr ''avi'', Inr ''mkv'']
   \<and> (label \<in> set format_items \<and> input_file s \<noteq> [] \<and> path_exists (input_file s) \<longrightarrow>
        (\<exists>fmt \<in> set [''mp4'', ''mov'', ''avi'', ''mkv''].
           output_format label = Inr fmt
           \<and> snd (start_conversion pf path_exists label s) =
               ThreadStarted (input_file s) (fst (splitext pf (input_file s)) @ ''.'' @ fmt)
           \<and> converter_thread (fst (start_conversion pf path_exists label s)) =
               Some (input_file s, fst (splitext pf (input_file s)) @ ''.'' @ fmt)))
   \<and> fst (splitext pf p) @ snd (splitext pf p) = p
   \<and> (snd (splitext pf p) \<noteq> [] \<longrightarrow>
        hd (snd (splitext pf p)) = CHR ''.'' \<and> CHR ''.'' \<notin> set (tl (snd (splitext pf p))))"
proof -
  have f: "output_format ''MP4 (Recommended)'' = Inr ''mp4''" "output_format ''MOV'' = Inr ''mov''"
    "output_format ''AVI'' = Inr ''avi''" "output_format ''MKV'' = Inr ''mkv''"
    using output_format_items by (simp_all add: format_items_def)
  have "\<exists>fmt \<in> set [''mp4'', ''mov'', ''avi'', ''mkv''].
      output_format label = Inr fmt
      \<and> snd (start_conversion pf path_exists label s) =
          ThreadStarted (input_file s) (fst (splitext pf (input_file s)) @ ''.'' @ fmt)
      \<and> converter_thread (fst (start_conversion pf path_exists label s)) =
          Some (input_file s, fst (splitext pf (input_file s)) @ ''.'' @ fmt)"
    if lab: "label \<in> set format_items" and ne: "input_file s \<noteq> []"
      and ex: "path_exists (input_file s)"
  proof -
    have "label = ''MP4 (Recommended)'' \<or> label = ''MOV'' \<or> label = ''AVI'' \<or> label = ''MKV''"
      using lab by (simp add: format_items_def)
    then show ?thesis
      using ne ex by (auto simp add: start_conversion_def output_path_def f Let_def)
  qed
  then show ?thesis
    using splitext_ext [of pf p] by (simp add: output_format_items splitext_append)
qed

theorem output_path_replaces_the_extension_witness:
  "''MP4 (Recommended)'' \<in> set format_items
   \<and> input_file (init_app\<lparr>input_file := ''clip.wmv''\<rparr>) \<noteq> []
   \<and> every_path_exists (input_file (init_app\<lparr>input_file := ''clip.wmv''\<rparr>))
   \<and> snd (start_conversion Posix every_path_exists ''MP4 (Recommended)''
            (init_app\<lparr>input_file := ''clip.wmv''\<rparr>)) =
       ThreadStarted ''clip.wmv'' ''clip.mp4''
   \<and> snd (splitext Posix ''clip.wmv'') \<noteq> []
   \<and> hd (snd (splitext Posix ''clip.wmv'')) = CHR ''.''"
proof -
  let ?s = "init_app\<lparr>input_file := ''clip.wmv''\<rparr>"
  have h: "''MP4 (Recommended)'' \<in> set format_items \<and> input_file ?s \<noteq> []
      \<and> every_path_exists (input_file ?s)"
    by (simp add: format_items_def every_path_exists_def)
  have e: "snd (splitext Posix ''clip.wmv'') \<noteq> []" by (simp add: sample_paths)
  have o: "output_format ''MP4 (Recommended)'' = Inr ''mp4''"
    using output_format_items by (simp add: format_items_def)
  from output_path_replaces_the_extension [of "''MP4 (Recommended)''" ?s every_path_exists Posix "''clip.wmv''"] h
  obtain fmt where "output_format ''MP4 (Recommended)'' = Inr fmt"
    "snd (start_conversion Posix every_path_exists ''MP4 (Recommended)'' ?s) =
       ThreadStarted (input_file ?s) (fst (splitext Posix (input_file ?s)) @ ''.'' @ fmt)"
    by blast
  then have a: "snd (start_conversion Posix every_path_exists ''MP4 (Recommended)'' ?s) =
       ThreadStarted ''clip.wmv'' ''clip.mp4''"
    using o by (simp add: sample_paths)
  have b: "hd (snd (splitext Posix ''clip.wmv'')) = CHR ''.''"
    using output_path_replaces_the_extension [of "''MP4 (Recommended)''" ?s every_path_exists Posix "''clip.wmv''"] e
    by blast
  show ?thesis using h a e b by blast
qed

text \<open>
  C8. A drop is decided on its first file \<open>p\<close> (the code looks at \<open>files[0]\<close> only). It is
  accepted exactly when \<open>p\<close> ends, up to case, in one of the six extensions; then \<open>p\<close>
  becomes the selected input and the button is enabled. Otherwise the status line shows
  the invalid-file-type error, and the selected input and the button are left as they were,
  so the drop does not enable the button. No drop starts a worker.
\<close>

theorem drop_is_gated_by_extension:
  "(drop_accepts (p # rest) \<longleftrightarrow>
      (\<exists>ext \<in> set [''.wmv'', ''.asf'', ''.mp4'', ''.mov'', ''.avi'', ''.mkv''].
         ends_with_ignoring_case p ext))
   \<and> (drop_accepts (p # rest) \<longrightarrow>
        dropEvent s (p # rest) =
          s\<lparr>input_file := p, convert_btn_enabled := True, progress_label := ReadyToConvert\<rparr>)
   \<and> (\<not> drop_accepts (p # rest) \<longrightarrow>
        dropEvent s (p # rest) = s\<lparr>progress_label := InvalidFileType\<rparr>
        \<and> input_file (dropEvent s (p # rest)) = input_file s
        \<and> convert_btn_enabled (dropEvent s (p # rest)) = convert_btn_enabled s)
   \<and> converter_thread (dropEvent s files) = converter_thread s"
  using drop_accepts_iff [of p rest]
  by (simp add: dropEvent_def supported_formats_def)

theorem drop_is_gated_by_extension_witness:
  "drop_accepts [''Movie.WMV'']
   \<and> dropEvent init_app [''Movie.WMV''] =
       init_app\<lparr>input_file := ''Movie.WMV'', convert_btn_enabled := True,
                progress_label := ReadyToConvert\<rparr>
   \<and> \<not> drop_accepts [''notes.txt'']
   \<and> dropEvent init_app [''notes.txt''] = init_app\<lparr>progress_label := InvalidFileType\<rparr>
   \<and> convert_btn_enabled (dropEvent init_app [''notes.txt'']) = convert_btn_enabled init_app"
  using drop_is_gated_by_extension [of "''Movie.WMV''" "[]" init_app "[]"]
    drop_is_gated_by_extension [of "''notes.txt''" "[]" init_app "[]"] sample_drops
  by blast

text \<open>
  C9, amended. When the input's extension is, character for character, a dot followed by
  the selected container's extension, the derived output path is the input path, and every
  call of \<open>write_videofile\<close> in the run is on that path (exactly one such call in a
  successful run). The claim as written compares the lower-cased extension: for
  \<open>clip.MP4\<close> and the MP4 entry the lower-cased extension is \<open>.mp4\<close>, yet the output path
  is \<open>clip.mp4\<close>, not the input path.
\<close>

theorem same_extension_output_is_the_input:
  assumes "snd (splitext pf inp) = ''.'' @ fmt"
  shows "output_path pf inp fmt = inp
    \<and> list_all (\<lambda>a. filename a = inp) (muxed (run env inp (output_path pf inp fmt)))
    \<and> (succeeded (run env inp (output_path pf inp fmt)) \<longrightarrow>
         map filename (muxed (run env inp (output_path pf inp fmt))) = [inp])"
proof -
  have "output_path pf inp fmt = fst (splitext pf inp) @ snd (splitext pf inp)"
    using assms by (simp add: output_path_def)
  then have o: "output_path pf inp fmt = inp" by (simp add: splitext_append)
  show ?thesis unfolding o using run_muxed_filename [of inp env inp] by (simp add: succeeded_run)
qed

theorem same_extension_output_is_the_input_witness:
  "snd (splitext Posix ''clip.mp4'') = ''.'' @ ''mp4''
   \<and> output_path Posix ''clip.mp4'' ''mp4'' = ''clip.mp4''
   \<and> succeeded (run good_env ''clip.mp4'' (output_path Posix ''clip.mp4'' ''mp4''))
   \<and> map filename (muxed (run good_env ''clip.mp4'' (output_path Posix ''clip.mp4'' ''mp4''))) =
       [''clip.mp4'']"
proof -
  have h: "snd (splitext Posix ''clip.mp4'') = ''.'' @ ''mp4''" by (simp add: sample_paths)
  have o: "output_path Posix ''clip.mp4'' ''mp4'' = ''clip.mp4''"
    using same_extension_output_is_the_input [OF h] by blast
  have s: "succeeded (run good_env ''clip.mp4'' ''clip.mp4'')"
    by (simp add: eval_run succeeded_def)
  show ?thesis
    using same_extension_output_is_the_input [OF h, of good_env] h s unfolding o by blast
qed

theorem upper_case_extension_gives_another_path:
  "lower (snd (splitext Posix ''clip.MP4'')) = ''.'' @ ''mp4''
   \<and> output_format ''MP4 (Recommended)'' = Inr ''mp4''
   \<and> snd (start_conversion Posix every_path_exists ''MP4 (Recommended)''
            (init_app\<lparr>input_file := ''clip.MP4''\<rparr>)) =
       ThreadStarted ''clip.MP4'' ''clip.mp4''
   \<and> output_path Posix ''clip.MP4'' ''mp4'' \<noteq> ''clip.MP4''"
proof -
  have o: "output_format ''MP4 (Recommended)'' = Inr ''mp4''"
    using output_format_items by (simp add: format_items_def)
  show ?thesis
    by (simp add: sample_paths lower_MP4 o start_conversion_def output_path_def
        every_path_exists_def init_app_def Let_def)
qed

end
